theory Spec2Isabelle
  imports Complex_Main "HOL-Library.Log_Nat"
begin

section \<open>JavaScript values\<close>

text \<open>
  The script handles plain data: environment variables and the JSON bodies the content
  API returns. A number is an IEEE double in the source; here a finite number is the real
  that the double denotes. The operations that round their result (\<open>Math.log\<close>, \<open>/\<close>,
  \<open>Math.pow\<close>) are not computed here: they belong to the runtime, as the script finds
  them. The operations that are exact on doubles (\<open>Math.floor\<close>, comparison, the digits of
  \<open>toFixed\<close>) are defined on the reals. Arrays, functions and objects with methods of
  their own do not occur in the data and are not represented.
\<close>

datatype number = NaN | Finite real | PosInfinity | NegInfinity

datatype js =
    JUndefined
  | JNull
  | JBoolean bool
  | JNumber number
  | JString string
  | JObject "(string \<times> js) list"

section \<open>The data of the script\<close>

text \<open>A thrown \<open>Error\<close> with its message.\<close>

datatype error = Error string

text \<open>An asset of a listing response: \<open>asset.sys.id\<close>, \<open>asset.sys.createdAt\<close>,
  \<open>asset.sys.updatedAt\<close> and the object \<open>asset.fields\<close>. The API sends \<open>sys\<close> and \<open>fields\<close> with
  every asset.\<close>

record asset =
  sys_id :: string
  sys_createdAt :: string
  sys_updatedAt :: string
  asset_fields :: "(string \<times> js) list"

text \<open>The object pushed to \<open>unlinkedAssets\<close>.\<close>

record report_entry =
  id' :: string
  title :: js
  url :: js
  contentType :: js
  fileSize :: string
  createdAt :: string
  updatedAt :: string
  contentfulUrl :: string

text \<open>\<open>process.env\<close>: a variable is a string or undefined.\<close>

record env =
  SPACE_ID :: "string option"
  ENVIRONMENT :: "string option"
  ACCESS_TOKEN :: "string option"

text \<open>The argument of \<open>createClient\<close>.\<close>

record client_config =
  space :: "string option"
  environment :: string
  accessToken :: "string option"

text \<open>The client of the content API. \<open>getAssets c skip limit order\<close> is
  \<open>client.getAssets({skip, limit, order})\<close> and answers \<open>assetsResponse.items\<close>;
  \<open>getEntries c assetId limit\<close> is \<open>client.getEntries({links_to_asset, limit})\<close> and answers
  \<open>linkedEntries.total\<close>. Either may throw.\<close>

record client =
  getAssets :: "nat \<Rightarrow> nat \<Rightarrow> string \<Rightarrow> error + asset list"
  getEntries :: "string \<Rightarrow> nat \<Rightarrow> error + js"

text \<open>What the script takes from its surroundings: the numeric reading of a string
  (\<open>StringToNumber\<close> of the language), the floating-point operations \<open>Math.log(x)\<close>,
  \<open>x / y\<close> and \<open>Math.pow(x, y)\<close>, the locale's rendering of a date
  (\<open>new Date(t).toLocaleDateString()\<close>), the clock (\<open>new Date().toISOString()\<close>), the
  package's \<open>createClient\<close>, and \<open>fs.writeFile\<close>, which gets the list that
  \<open>JSON.stringify\<close> serialises and may throw.\<close>

record runtime =
  StringToNumber :: "string \<Rightarrow> number"
  Math_log :: "number \<Rightarrow> number"
  divide_number :: "number \<Rightarrow> number \<Rightarrow> number"
  Math_pow :: "number \<Rightarrow> number \<Rightarrow> number"
  toLocaleDateString :: "string \<Rightarrow> string"
  toISOString_now :: string
  createClient :: "client_config \<Rightarrow> client"
  writeFile :: "string \<Rightarrow> report_entry list \<Rightarrow> error option"

text \<open>The observable behaviour: console lines (one constructor for each call of
  \<open>console.log\<close> and \<open>console.error\<close> in the source, colours left out), requests to the
  API, and the call of \<open>fs.writeFile\<close>.\<close>

datatype line =
    MissingEnvironmentVariables
  | StartingScan
  | FetchingAssets nat nat
  | FoundUnlinkedAsset js
  | ErrorFetchingOrProcessing string
  | Searching
  | SpaceIdLine "string option"
  | EnvironmentLine string
  | BlankLine
  | FoundCount nat
  | ReportSaved string
  | SummaryHeader
  | Rule
  | ItemTitle nat js
  | ItemId string
  | ItemType js
  | ItemSize string
  | ItemCreated string
  | ItemUrl string
  | ClickNote
  | WellOrganized
  | ErrorRunningScript error

datatype request = GetAssets nat nat string | GetEntries string nat

datatype event =
    Log line
  | LogError line
  | Call request
  | WriteFile string "report_entry list"

text \<open>The state of \<open>findUnlinkedAssets\<close>: its array, its offset, and what has been
  observed so far. The flag \<open>hasMoreAssets\<close> is the control of the loop.\<close>

record scan =
  unlinkedAssets :: "report_entry list"
  skip :: nat
  trace :: "event list"

text \<open>How the process ends.\<close>

record outcome =
  events :: "event list"
  exit_code :: nat

section \<open>Conversions and operators\<close>

fun ToBoolean :: "js \<Rightarrow> bool" where
  "ToBoolean JUndefined = False"
| "ToBoolean JNull = False"
| "ToBoolean (JBoolean b) = b"
| "ToBoolean (JNumber n) = (n \<noteq> NaN \<and> n \<noteq> Finite 0)"
| "ToBoolean (JString s) = (s \<noteq> [])"
| "ToBoolean (JObject kvs) = True"

fun ToNumber :: "runtime \<Rightarrow> js \<Rightarrow> number" where
  "ToNumber rt JUndefined = NaN"
| "ToNumber rt JNull = Finite 0"
| "ToNumber rt (JBoolean b) = Finite (if b then 1 else 0)"
| "ToNumber rt (JNumber n) = n"
| "ToNumber rt (JString s) = StringToNumber rt s"
| "ToNumber rt (JObject kvs) = NaN"

definition isNaN :: "runtime \<Rightarrow> js \<Rightarrow> bool" where
  "isNaN rt v = (ToNumber rt v = NaN)"

text \<open>\<open>a || b\<close>\<close>

definition js_or :: "js \<Rightarrow> js \<Rightarrow> js" where
  "js_or a b = (if ToBoolean a then a else b)"

text \<open>\<open>v?.[k]\<close> and \<open>v?.k\<close>, for a key that no primitive value carries (the script reads
  \<open>en-US\<close>, \<open>url\<close>, \<open>details\<close>, \<open>size\<close> and \<open>contentType\<close>).\<close>

fun optional_member :: "js \<Rightarrow> string \<Rightarrow> js" where
  "optional_member (JObject kvs) k = (case map_of kvs k of Some v \<Rightarrow> v | None \<Rightarrow> JUndefined)"
| "optional_member v k = JUndefined"

text \<open>A value inside a template literal, where it is a string or undefined.\<close>

fun template :: "string option \<Rightarrow> string" where
  "template None = ''undefined''"
| "template (Some s) = s"

section \<open>Numbers\<close>

fun Math_floor :: "number \<Rightarrow> number" where
  "Math_floor (Finite x) = Finite (of_int \<lfloor>x\<rfloor>)"
| "Math_floor n = n"

text \<open>\<open>parseInt(n, 10)\<close> of a number that \<open>Math.floor\<close> returned: the number is printed and
  read back. An integer below \<open>10^21\<close> in size prints as its decimal digits and reads back
  as itself; \<open>Infinity\<close>, \<open>-Infinity\<close> and \<open>NaN\<close> print as words and read back as NaN.\<close>

fun parseInt10 :: "number \<Rightarrow> number" where
  "parseInt10 (Finite x) = Finite x"
| "parseInt10 n = NaN"

fun decimal :: "nat \<Rightarrow> string" where
  "decimal n =
     (if n < 10 then [''0123456789'' ! n]
      else decimal (n div 10) @ [''0123456789'' ! (n mod 10)])"

declare decimal.simps [simp del]

text \<open>\<open>x.toFixed(2)\<close>: with \<open>n\<close> the integer for which \<open>n / 100\<close> is nearest to \<open>x\<close> (the
  larger one of two), the digits of \<open>n\<close> with a point before the last two. This is the
  fixed notation, which \<open>toFixed\<close> uses below \<open>10^21\<close>; with the arithmetic of doubles
  the script calls it on a quotient below 1024, on NaN or on Infinity.\<close>

definition fixed2 :: "real \<Rightarrow> string" where
  "fixed2 x =
     (let n = nat \<lfloor>x * 100 + 1 / 2\<rfloor>
      in decimal (n div 100) @ ''.'' @ [''0123456789'' ! (n div 10 mod 10), ''0123456789'' ! (n mod 10)])"

fun toFixed2 :: "number \<Rightarrow> string" where
  "toFixed2 NaN = ''NaN''"
| "toFixed2 PosInfinity = ''Infinity''"
| "toFixed2 NegInfinity = ''-Infinity''"
| "toFixed2 (Finite x) = (if x < 0 then ''-'' @ fixed2 (- x) else fixed2 x)"

text \<open>\<open>xs[i]\<close> for an array of strings and a number \<open>i\<close>: the element when \<open>i\<close> is an
  index of the array, undefined otherwise.\<close>

fun element :: "string list \<Rightarrow> number \<Rightarrow> string option" where
  "element xs (Finite i) =
     (if of_int \<lfloor>i\<rfloor> = i \<and> 0 \<le> i \<and> nat \<lfloor>i\<rfloor> < length xs then Some (xs ! nat \<lfloor>i\<rfloor>) else None)"
| "element xs n = None"

section \<open>The helpers of the script\<close>

text \<open>\<open>getContentfulWebAppUrl(spaceId, assetId, environmentId = "master")\<close>; an argument
  that is undefined is \<open>None\<close>.\<close>

definition getContentfulWebAppUrl :: "string option \<Rightarrow> string option \<Rightarrow> string option \<Rightarrow> string" where
  "getContentfulWebAppUrl spaceId assetId environmentId =
     ''https://app.contentful.com/spaces/'' @ template spaceId @ ''/environments/''
       @ template (case environmentId of None \<Rightarrow> Some ''master'' | Some e \<Rightarrow> Some e)
       @ ''/assets/'' @ template assetId"

definition sizes :: "string list" where
  "sizes = [''Bytes'', ''KB'', ''MB'', ''GB'', ''TB'']"

text \<open>The local \<open>i\<close> of \<open>formatFileSize\<close>:
  \<open>parseInt(Math.floor(Math.log(bytes) / Math.log(1024)), 10)\<close>.\<close>

definition formatFileSize_i :: "runtime \<Rightarrow> js \<Rightarrow> number" where
  "formatFileSize_i rt bytes =
     parseInt10 (Math_floor
       (divide_number rt (Math_log rt (ToNumber rt bytes)) (Math_log rt (Finite 1024))))"

definition formatFileSize :: "runtime \<Rightarrow> js \<Rightarrow> string" where
  "formatFileSize rt bytes =
     (if \<not> ToBoolean bytes \<or> isNaN rt bytes then ''Unknown''
      else if bytes = JNumber (Finite 0) then ''0 Bytes''
      else
        let i = formatFileSize_i rt bytes
        in toFixed2 (divide_number rt (ToNumber rt bytes) (Math_pow rt (Finite 1024) i))
             @ '' '' @ template (element sizes i))"

text \<open>What the arithmetic of IEEE 754 doubles gives, as far as the formatter needs it:
  \<open>Math.log\<close> of a positive number and a quotient that neither overflows nor underflows
  are finite and close to the exact value (the bound \<open>2^-40\<close> is generous: a rounded
  quotient is within \<open>2^-53\<close>, a logarithm within a few units of the last place); a
  number divided by itself is 1; dividing by a power of 1024, a power of two, is exact
  when the quotient neither overflows nor underflows; and the powers of 1024 up to
  \<open>1024^102 = 2^1020\<close> are exact. The numbers the script handles are the doubles among
  the reals the properties speak of.\<close>

definition accurate :: "runtime \<Rightarrow> bool" where
  "accurate rt \<longleftrightarrow>
     (\<forall>x. 0 < x \<longrightarrow> (\<exists>l. Math_log rt (Finite x) = Finite l \<and> \<bar>l - ln x\<bar> \<le> \<bar>ln x\<bar> / 2 ^ 40))
   \<and> (\<forall>x y. y \<noteq> 0 \<and> 1 / 2 ^ 1000 \<le> \<bar>x / y\<bar> \<and> \<bar>x / y\<bar> \<le> 2 ^ 1000 \<longrightarrow>
         (\<exists>q. divide_number rt (Finite x) (Finite y) = Finite q \<and> \<bar>q - x / y\<bar> \<le> \<bar>x / y\<bar> / 2 ^ 40))
   \<and> (\<forall>x. x \<noteq> 0 \<longrightarrow> divide_number rt (Finite x) (Finite x) = Finite 1)
   \<and> (\<forall>x k. k \<le> 102 \<and> 1 / 2 ^ 1000 \<le> \<bar>x / 1024 ^ k\<bar> \<and> \<bar>x / 1024 ^ k\<bar> \<le> 2 ^ 1000 \<longrightarrow>
         divide_number rt (Finite x) (Finite (1024 ^ k)) = Finite (x / 1024 ^ k))
   \<and> (\<forall>k \<le> 102. Math_pow rt (Finite 1024) (Finite (real k)) = Finite (1024 ^ k))"

section \<open>Configuration\<close>

text \<open>\<open>!v\<close> for an environment variable: it is undefined or the empty string.\<close>

definition falsy :: "string option \<Rightarrow> bool" where
  "falsy v = (v = None \<or> v = Some [])"

text \<open>\<open>ENVIRONMENT || "master"\<close>\<close>

definition ENVIRONMENT_or_master :: "env \<Rightarrow> string" where
  "ENVIRONMENT_or_master e =
     (case ENVIRONMENT e of None \<Rightarrow> ''master'' | Some v \<Rightarrow> if v = [] then ''master'' else v)"

section \<open>The scan\<close>

definition limit :: nat where
  "limit = 100"

text \<open>\<open>asset.fields.title\<close>, \<open>asset.fields.file\<close>\<close>

definition fields_member :: "asset \<Rightarrow> string \<Rightarrow> js" where
  "fields_member a k = optional_member (JObject (asset_fields a)) k"

definition assetTitle :: "asset \<Rightarrow> js" where
  "assetTitle a =
     js_or (js_or (optional_member (fields_member a ''title'') ''en-US'') (fields_member a ''title''))
       (JString ''Untitled'')"

definition fileDetails :: "asset \<Rightarrow> js" where
  "fileDetails a = js_or (optional_member (fields_member a ''file'') ''en-US'') (fields_member a ''file'')"

text \<open>The object literal of lines 96 to 105.\<close>

definition unlinked_entry :: "runtime \<Rightarrow> env \<Rightarrow> asset \<Rightarrow> report_entry" where
  "unlinked_entry rt e a =
     (let assetId = sys_id a;
          contentfulUrl = getContentfulWebAppUrl (SPACE_ID e) (Some assetId) (Some (ENVIRONMENT_or_master e));
          fileSize = optional_member (optional_member (fileDetails a) ''details'') ''size''
      in \<lparr> id' = assetId,
           title = assetTitle a,
           url = js_or (optional_member (fileDetails a) ''url'') (JString ''No URL''),
           contentType = js_or (optional_member (fileDetails a) ''contentType'') (JString ''Unknown''),
           fileSize = (if ToBoolean fileSize then formatFileSize rt fileSize else ''Unknown''),
           createdAt = toLocaleDateString rt (sys_createdAt a),
           updatedAt = toLocaleDateString rt (sys_updatedAt a),
           contentfulUrl = contentfulUrl \<rparr>)"

text \<open>The \<open>for\<close> loop over a page. An error leaves the loop with the state as it is at
  that moment: what has been pushed stays pushed.\<close>

fun for_assets :: "runtime \<Rightarrow> env \<Rightarrow> client \<Rightarrow> asset list \<Rightarrow> scan \<Rightarrow> scan \<times> error option" where
  "for_assets rt e c [] st = (st, None)"
| "for_assets rt e c (a # assets) st =
     (let st1 = st\<lparr>trace := trace st @ [Call (GetEntries (sys_id a) 1)]\<rparr>
      in case getEntries c (sys_id a) 1 of
           Inl err \<Rightarrow> (st1, Some err)
         | Inr linkedEntries_total \<Rightarrow>
             if linkedEntries_total = JNumber (Finite 0)
             then for_assets rt e c assets
                    (st1\<lparr>unlinkedAssets := unlinkedAssets st1 @ [unlinked_entry rt e a],
                         trace := trace st1 @ [Log (FoundUnlinkedAsset (assetTitle a))]\<rparr>)
             else for_assets rt e c assets st1)"

text \<open>The \<open>catch\<close> of the loop body: the message is printed and \<open>hasMoreAssets\<close> is
  set to false.\<close>

fun catch_error :: "error \<Rightarrow> scan \<Rightarrow> scan" where
  "catch_error (Error message) st = st\<lparr>trace := trace st @ [LogError (ErrorFetchingOrProcessing message)]\<rparr>"

text \<open>The \<open>while (hasMoreAssets)\<close> loop. It ends when a page is empty or shorter than
  \<open>limit\<close>, or when an error is caught; a client that answers full pages for ever keeps it
  running, which is the value \<open>None\<close>.\<close>

partial_function (option) while_hasMoreAssets :: "runtime \<Rightarrow> env \<Rightarrow> client \<Rightarrow> scan \<Rightarrow> scan option" where
  "while_hasMoreAssets rt e c st =
     (case getAssets c (skip st) limit ''sys.createdAt'' of
        Inl err \<Rightarrow>
          Some (catch_error err
            (st\<lparr>trace := trace st @ [Log (FetchingAssets (skip st) limit),
                                     Call (GetAssets (skip st) limit ''sys.createdAt'')]\<rparr>))
      | Inr assets \<Rightarrow>
          if length assets = 0
          then Some (st\<lparr>trace := trace st @ [Log (FetchingAssets (skip st) limit),
                                            Call (GetAssets (skip st) limit ''sys.createdAt'')]\<rparr>)
          else
            (case for_assets rt e c assets
                    (st\<lparr>trace := trace st @ [Log (FetchingAssets (skip st) limit),
                                             Call (GetAssets (skip st) limit ''sys.createdAt'')]\<rparr>) of
               (st2, Some err) \<Rightarrow> Some (catch_error err st2)
             | (st2, None) \<Rightarrow>
                 if length assets < limit
                 then Some (st2\<lparr>skip := skip st2 + limit\<rparr>)
                 else while_hasMoreAssets rt e c (st2\<lparr>skip := skip st2 + limit\<rparr>)))"

definition findUnlinkedAssets :: "runtime \<Rightarrow> env \<Rightarrow> client \<Rightarrow> (report_entry list \<times> event list) option" where
  "findUnlinkedAssets rt e c =
     map_option (\<lambda>st. (unlinkedAssets st, trace st))
       (while_hasMoreAssets rt e c \<lparr>unlinkedAssets = [], skip = 0, trace = [Log StartingScan]\<rparr>)"

section \<open>The report\<close>

definition line_terminator :: "char \<Rightarrow> bool" where
  "line_terminator ch = (ch = CHR 0x0A \<or> ch = CHR 0x0D)"

text \<open>\<open>.replace(/:/g, "-")\<close>\<close>

definition replace_colons :: "string \<Rightarrow> string" where
  "replace_colons s = map (\<lambda>ch. if ch = CHR '':'' then CHR ''-'' else ch) s"

text \<open>\<open>.replace(/\\..+/, "")\<close>: the first point that has a character other than a line
  terminator after it is removed with all such characters that follow it.\<close>

fun remove_from_point :: "string \<Rightarrow> string" where
  "remove_from_point [] = []"
| "remove_from_point [ch] = [ch]"
| "remove_from_point (ch # next # rest) =
     (if ch = CHR ''.'' \<and> \<not> line_terminator next
      then dropWhile (\<lambda>d. \<not> line_terminator d) rest
      else ch # remove_from_point (next # rest))"

definition report_filename :: "runtime \<Rightarrow> string" where
  "report_filename rt =
     ''unlinked-assets-'' @ remove_from_point (replace_colons (toISOString_now rt)) @ ''.json''"

text \<open>The \<open>forEach\<close> of the summary, from \<open>index\<close> on, for a list of \<open>n\<close> entries.\<close>

fun summary_items :: "nat \<Rightarrow> nat \<Rightarrow> report_entry list \<Rightarrow> event list" where
  "summary_items index n [] = []"
| "summary_items index n (a # rest) =
     [Log (ItemTitle (index + 1) (title a)), Log (ItemId (id' a)), Log (ItemType (contentType a)),
      Log (ItemSize (fileSize a)), Log (ItemCreated (createdAt a)), Log (ItemUrl (contentfulUrl a))]
     @ (if index < n - 1 then [Log Rule] else [])
     @ summary_items (index + 1) n rest"

definition summary :: "report_entry list \<Rightarrow> event list" where
  "summary found =
     (if length found > 0
      then [Log SummaryHeader, Log Rule] @ summary_items 0 (length found) found
           @ [Log Rule, Log BlankLine, Log ClickNote]
      else [Log WellOrganized])"

text \<open>\<open>main\<close>: the scan, the file, the summary. An error of \<open>fs.writeFile\<close> is caught,
  printed, and ends the process with code 1.\<close>

definition main :: "runtime \<Rightarrow> env \<Rightarrow> client \<Rightarrow> outcome option" where
  "main rt e c =
     (case findUnlinkedAssets rt e c of
        None \<Rightarrow> None
      | Some (found, scanned) \<Rightarrow>
          (let banner = [Log Searching, Log (SpaceIdLine (SPACE_ID e)),
                         Log (EnvironmentLine (ENVIRONMENT_or_master e)), Log BlankLine];
               filename = report_filename rt
           in (case writeFile rt filename found of
                 Some err \<Rightarrow>
                   Some \<lparr>events = banner @ scanned @ [WriteFile filename found, LogError (ErrorRunningScript err)],
                         exit_code = 1\<rparr>
               | None \<Rightarrow>
                   Some \<lparr>events = banner @ scanned @ [WriteFile filename found]
                           @ [Log BlankLine, Log (FoundCount (length found)), Log (ReportSaved filename), Log BlankLine]
                           @ summary found,
                         exit_code = 0\<rparr>)))"

text \<open>The module from its first line: the check of the environment, the client, \<open>main()\<close>.\<close>

definition script :: "runtime \<Rightarrow> env \<Rightarrow> outcome option" where
  "script rt e =
     (if falsy (SPACE_ID e) \<or> falsy (ACCESS_TOKEN e)
      then Some \<lparr>events = [LogError MissingEnvironmentVariables], exit_code = 1\<rparr>
      else main rt e
             (createClient rt \<lparr>space = SPACE_ID e, environment = ENVIRONMENT_or_master e,
                               accessToken = ACCESS_TOKEN e\<rparr>))"

section \<open>The repository behind the client\<close>

text \<open>Modelled from the spec: the client of the content API (the package \<open>contentful\<close>) is
  not among the sources. Section 6 of the spec gives its contract: the listing supports
  offset-based pagination over a stable order, and the reference query answers a total for
  one asset. A repository is the list of its assets in listing order and, for an asset
  identifier, the answer of the reference query; either request may fail with an error, the
  listing depending on its offset.\<close>

definition repository :: "asset list \<Rightarrow> (string \<Rightarrow> error + js) \<Rightarrow> (nat \<Rightarrow> error option) \<Rightarrow> client" where
  "repository assets check page_error =
     \<lparr> getAssets = (\<lambda>skip limit order.
         case page_error skip of Some err \<Rightarrow> Inl err | None \<Rightarrow> Inr (take limit (drop skip assets))),
       getEntries = (\<lambda>assetId limit. check assetId) \<rparr>"

text \<open>A repository that answers every request: \<open>total_of\<close> is the total the reference
  query reports for an identifier.\<close>

definition fixed_repository :: "asset list \<Rightarrow> (string \<Rightarrow> js) \<Rightarrow> client" where
  "fixed_repository assets total_of = repository assets (\<lambda>assetId. Inr (total_of assetId)) (\<lambda>skip. None)"

text \<open>The requests of a trace, in order; those for a page and those for a reference check.\<close>

fun requests :: "event list \<Rightarrow> request list" where
  "requests [] = []"
| "requests (Call r # tr) = r # requests tr"
| "requests (ev # tr) = requests tr"

fun is_GetAssets :: "request \<Rightarrow> bool" where
  "is_GetAssets (GetAssets s l ord) = True"
| "is_GetAssets (GetEntries i l) = False"

definition page_requests :: "event list \<Rightarrow> request list" where
  "page_requests tr = filter is_GetAssets (requests tr)"

definition check_requests :: "event list \<Rightarrow> request list" where
  "check_requests tr = filter (\<lambda>r. \<not> is_GetAssets r) (requests tr)"

text \<open>The reference query for an asset reported a total of zero.\<close>

definition reported_zero :: "client \<Rightarrow> asset \<Rightarrow> bool" where
  "reported_zero c a = (getEntries c (sys_id a) 1 = Inr (JNumber (Finite 0)))"

text \<open>The reading of the title rule by presence: a title is present when it is not
  undefined.\<close>

definition title_by_presence :: "asset \<Rightarrow> js" where
  "title_by_presence a =
     (if optional_member (fields_member a ''title'') ''en-US'' \<noteq> JUndefined
      then optional_member (fields_member a ''title'') ''en-US''
      else if fields_member a ''title'' \<noteq> JUndefined then fields_member a ''title''
      else JString ''Untitled'')"

text \<open>The page the client answers to a listing request.\<close>

fun answered_items :: "client \<Rightarrow> request \<Rightarrow> asset list" where
  "answered_items c (GetAssets s l ord) = (case getAssets c s l ord of Inr items \<Rightarrow> items | Inl err \<Rightarrow> [])"
| "answered_items c (GetEntries i l) = []"

section \<open>Example data\<close>

definition asset1 :: asset where
  "asset1 = \<lparr> sys_id = ''a1'', sys_createdAt = ''2024-01-05T10:00:00.000Z'',
     sys_updatedAt = ''2024-02-01T08:30:00.000Z'',
     asset_fields = [(''title'', JString ''Logo''),
       (''file'', JObject [(''url'', JString ''//images.ctfassets.net/logo.png''),
          (''details'', JObject [(''size'', JNumber (Finite 1536))]),
          (''contentType'', JString ''image/png'')])] \<rparr>"

definition asset2 :: asset where
  "asset2 = \<lparr> sys_id = ''a2'', sys_createdAt = ''2024-03-09T14:20:00.000Z'',
     sys_updatedAt = ''2024-03-09T14:20:00.000Z'',
     asset_fields = [(''title'', JObject [(''en-US'', JString ''Banner'')]),
       (''file'', JObject [(''en-US'', JObject [(''url'', JString ''//images.ctfassets.net/banner.jpg''),
          (''details'', JObject [(''size'', JNumber (Finite 1024))]),
          (''contentType'', JString ''image/jpeg'')])])] \<rparr>"

definition asset3 :: asset where
  "asset3 = \<lparr> sys_id = ''a3'', sys_createdAt = ''2024-06-30T23:59:59.000Z'',
     sys_updatedAt = ''2024-07-01T00:00:00.000Z'', asset_fields = [] \<rparr>"

definition empty_title_asset :: asset where
  "empty_title_asset = \<lparr> sys_id = ''a4'', sys_createdAt = ''2024-08-01T00:00:00.000Z'',
     sys_updatedAt = ''2024-08-01T00:00:00.000Z'', asset_fields = [(''title'', JString [])] \<rparr>"

text \<open>An arithmetic without rounding, for the examples: the logarithm, the quotient and the
  power of the reals. At the numbers of the examples the arithmetic of doubles gives the
  same indices and strings. The formatter raises 1024 to a finite exponent or to NaN, and
  the power is given for a positive base and a finite exponent only.\<close>

fun exact_log :: "number \<Rightarrow> number" where
  "exact_log NaN = NaN"
| "exact_log (Finite x) = (if x < 0 then NaN else if x = 0 then NegInfinity else Finite (ln x))"
| "exact_log PosInfinity = PosInfinity"
| "exact_log NegInfinity = NaN"

fun exact_divide :: "number \<Rightarrow> number \<Rightarrow> number" where
  "exact_divide NaN b = NaN"
| "exact_divide a NaN = NaN"
| "exact_divide (Finite x) (Finite y) =
     (if y \<noteq> 0 then Finite (x / y)
      else if x = 0 then NaN else if 0 < x then PosInfinity else NegInfinity)"
| "exact_divide (Finite x) PosInfinity = Finite 0"
| "exact_divide (Finite x) NegInfinity = Finite 0"
| "exact_divide PosInfinity (Finite y) = (if 0 \<le> y then PosInfinity else NegInfinity)"
| "exact_divide NegInfinity (Finite y) = (if 0 \<le> y then NegInfinity else PosInfinity)"
| "exact_divide PosInfinity b = NaN"
| "exact_divide NegInfinity b = NaN"

fun exact_pow :: "number \<Rightarrow> number \<Rightarrow> number" where
  "exact_pow (Finite x) (Finite y) = (if 0 < x then Finite (x powr y) else NaN)"
| "exact_pow a b = NaN"

definition example_total :: "string \<Rightarrow> js" where
  "example_total assetId = (if assetId = ''a2'' then JNumber (Finite 0) else JNumber (Finite 1))"

definition example_env :: env where
  "example_env = \<lparr> SPACE_ID = Some ''space1'', ENVIRONMENT = None, ACCESS_TOKEN = Some ''token'' \<rparr>"

definition example_runtime :: runtime where
  "example_runtime =
     \<lparr> StringToNumber = (\<lambda>s. NaN),
       Math_log = exact_log,
       divide_number = exact_divide,
       Math_pow = exact_pow,
       toLocaleDateString = (\<lambda>t. take 10 t),
       toISOString_now = ''2025-03-01T12:34:56.789Z'',
       createClient = (\<lambda>cfg. fixed_repository [asset1, asset2, asset3] example_total),
       writeFile = (\<lambda>filename found. None) \<rparr>"

text \<open>The same runtime with the logarithm rounded as that of doubles is just below
  \<open>1024^5 = 2^50\<close>: the logarithms of \<open>2^50 - 1\<close> and of \<open>2^50\<close> differ by about
  \<open>2^-50\<close>, the doubles near them are \<open>2^-47\<close> apart, and \<open>Math.log\<close> returns the same
  double for both.\<close>

definition rounding_runtime :: runtime where
  "rounding_runtime =
     example_runtime \<lparr> Math_log :=
       (\<lambda>n. if n = Finite (1024 ^ 5 - 1) then exact_log (Finite (1024 ^ 5)) else exact_log n) \<rparr>"

text \<open>A repository of two assets whose reference query fails for the second.\<close>

definition failing_check_repository :: client where
  "failing_check_repository =
     repository [asset2, asset1]
       (\<lambda>assetId. if assetId = ''a1'' then Inl (Error ''socket hang up'') else Inr (example_total assetId))
       (\<lambda>skip. None)"

text \<open>A repository whose first listing request fails.\<close>

definition failing_page_repository :: client where
  "failing_page_repository =
     repository [asset1, asset2, asset3] (\<lambda>assetId. Inr (example_total assetId))
       (\<lambda>skip. if skip = 0 then Some (Error ''getaddrinfo ENOTFOUND'') else None)"

section \<open>The file-size formatter\<close>

lemma rel_chain:
  fixes B K e lb lk q :: real
  assumes B: "0 < B" and K: "0 < K" and e: "0 < e" "e \<le> 1 / 5"
    and lb: "\<bar>lb - B\<bar> \<le> B * e" and lk: "\<bar>lk - K\<bar> \<le> K * e"
    and q: "\<bar>q - lb / lk\<bar> \<le> (lb / lk) * e"
  shows "\<bar>q - B / K\<bar> \<le> (B / K) * (5 * e)"
proof -
  let ?L = "B / K"
  let ?r = "lb / lk"
  have L: "0 < ?L" using B K by simp
  have lb1: "B * (1 - e) \<le> lb" "lb \<le> B * (1 + e)" using lb by (simp_all add: algebra_simps abs_le_iff)
  have lk1: "K * (1 - e) \<le> lk" "lk \<le> K * (1 + e)" using lk by (simp_all add: algebra_simps abs_le_iff)
  have pos: "0 < B * (1 - e)" "0 < K * (1 - e)" using B K e by simp_all
  have lbp: "0 < lb" and lkp: "0 < lk" using pos lb1 lk1 by linarith+
  have "?r \<le> (B * (1 + e)) / (K * (1 - e))"
    using lb1(2) lk1(1) pos(2) lbp by (intro frac_le) simp_all
  also have "\<dots> = ?L * ((1 + e) / (1 - e))" by simp
  also have "\<dots> \<le> ?L * (1 + 3 * e)"
  proof -
    have "0 \<le> e * (1 - 3 * e)" using e by simp
    then have "1 + e \<le> (1 + 3 * e) * (1 - e)" by (simp add: algebra_simps)
    then have "(1 + e) / (1 - e) \<le> 1 + 3 * e" using e by (simp add: pos_divide_le_eq)
    then show ?thesis using L by (intro mult_left_mono) simp_all
  qed
  finally have r_up: "?r \<le> ?L * (1 + 3 * e)" .
  have "?L * ((1 - e) / (1 + e)) = (B * (1 - e)) / (K * (1 + e))" by simp
  also have "\<dots> \<le> ?r"
    using lb1(1) lk1(2) pos(1) lkp by (intro frac_le) simp_all
  finally have "?L * ((1 - e) / (1 + e)) \<le> ?r" .
  moreover have "?L * (1 - 2 * e) \<le> ?L * ((1 - e) / (1 + e))"
  proof -
    have "(1 - 2 * e) * (1 + e) \<le> 1 - e" using e by (simp add: algebra_simps)
    then have "1 - 2 * e \<le> (1 - e) / (1 + e)" using e by (simp add: pos_le_divide_eq)
    then show ?thesis using L by (intro mult_left_mono) simp_all
  qed
  ultimately have r_lo: "?L * (1 - 2 * e) \<le> ?r" by linarith
  have rp: "0 < ?r" using lbp lkp by simp
  have q1: "?r * (1 - e) \<le> q" "q \<le> ?r * (1 + e)"
  proof -
    define r where "r = lb / lk"
    have "\<bar>q - r\<bar> \<le> r * e" using q by (simp only: r_def)
    then have "r * (1 - e) \<le> q \<and> q \<le> r * (1 + e)" by (simp add: algebra_simps abs_le_iff)
    then show "?r * (1 - e) \<le> q" "q \<le> ?r * (1 + e)" by (simp_all only: r_def)
  qed
  have "q \<le> ?L * (1 + 3 * e) * (1 + e)"
    using q1(2) r_up e by (meson add_pos_pos less_eq_real_def mult_right_mono order_trans zero_less_one)
  also have "\<dots> \<le> ?L * (1 + 5 * e)"
  proof -
    have "0 \<le> e * (1 - 3 * e)" using e by simp
    then have "(1 + 3 * e) * (1 + e) \<le> 1 + 5 * e" by (simp add: algebra_simps)
    then have "?L * ((1 + 3 * e) * (1 + e)) \<le> ?L * (1 + 5 * e)"
      using L by (intro mult_left_mono) simp_all
    then show ?thesis by (simp only: mult.assoc)
  qed
  finally have up: "q \<le> ?L * (1 + 5 * e)" .
  have "?L * (1 - 5 * e) \<le> ?L * ((1 - 2 * e) * (1 - e))"
  proof -
    have "1 - 5 * e \<le> (1 - 2 * e) * (1 - e)" using e by (simp add: algebra_simps)
    then show ?thesis using L by (intro mult_left_mono) simp_all
  qed
  also have "\<dots> = ?L * (1 - 2 * e) * (1 - e)" by (simp only: mult.assoc)
  also have "\<dots> \<le> ?r * (1 - e)" using r_lo e by (intro mult_right_mono) simp_all
  also have "\<dots> \<le> q" by (rule q1(1))
  finally have lo: "?L * (1 - 5 * e) \<le> q" .
  show ?thesis using up lo by (simp add: algebra_simps abs_le_iff)
qed

lemma rel_quotient:
  fixes B K e lb lk :: real
  assumes B: "0 < B" and K: "0 < K" and e: "0 < e" "e \<le> 1 / 5"
    and lb: "\<bar>lb - B\<bar> \<le> B * e" and lk: "\<bar>lk - K\<bar> \<le> K * e"
  shows "0 < lb" and "0 < lk" and "(B / K) / 2 \<le> lb / lk" and "lb / lk \<le> (B / K) * 2"
proof -
  let ?L = "B / K"
  have L: "0 < ?L" using B K by simp
  have lb1: "B * (1 - e) \<le> lb" "lb \<le> B * (1 + e)" using lb by (simp_all add: algebra_simps abs_le_iff)
  have lk1: "K * (1 - e) \<le> lk" "lk \<le> K * (1 + e)" using lk by (simp_all add: algebra_simps abs_le_iff)
  have pos: "0 < B * (1 - e)" "0 < K * (1 - e)" using B K e by simp_all
  show lbp: "0 < lb" and lkp: "0 < lk" using pos lb1 lk1 by linarith+
  have "lb / lk \<le> (B * (1 + e)) / (K * (1 - e))"
    using lb1(2) lk1(1) pos(2) lbp by (intro frac_le) simp_all
  also have "\<dots> = ?L * ((1 + e) / (1 - e))" by simp
  also have "\<dots> \<le> ?L * 2"
  proof -
    have "1 + e \<le> 2 * (1 - e)" using e by simp
    then have "(1 + e) / (1 - e) \<le> 2" using e by (simp add: pos_divide_le_eq)
    then show ?thesis using L by (intro mult_left_mono) simp_all
  qed
  finally show "lb / lk \<le> ?L * 2" .
  have "?L / 2 = ?L * (1 / 2)" by simp
  also have "\<dots> \<le> ?L * ((1 - e) / (1 + e))"
  proof -
    have "(1 / 2) * (1 + e) \<le> 1 - e" using e by simp
    then have "1 / 2 \<le> (1 - e) / (1 + e)" using e by (simp only: pos_le_divide_eq)
    then show ?thesis using L by (intro mult_left_mono) simp_all
  qed
  also have "\<dots> = (B * (1 - e)) / (K * (1 + e))" by simp
  also have "\<dots> \<le> lb / lk"
    using lb1(1) lk1(2) pos(1) lkp by (intro frac_le) simp_all
  finally show "?L / 2 \<le> lb / lk" .
qed

lemma ln_1024: "ln (1024::real) = 10 * ln 2"
proof -
  have "(1024::real) = 2 ^ 10" by simp
  then show ?thesis by (simp only: ln_realpow)
qed

lemma ln_2_bounds: "1 / 4 \<le> ln (2::real)" "ln (2::real) \<le> 1"
proof -
  have "(1 / 2 :: real) - (1 / 2)\<^sup>2 \<le> ln (1 + 1 / 2)"
    by (rule ln_one_plus_pos_lower_bound) simp_all
  then have "1 / 4 \<le> ln (3 / 2 :: real)" by (simp add: power2_eq_square)
  also have "\<dots> \<le> ln 2" by (rule ln_mono) simp_all
  finally show "1 / 4 \<le> ln (2::real)" .
  show "ln (2::real) \<le> 1" using ln_le_minus_one [of "2::real"] by simp
qed

text \<open>With the arithmetic of doubles, the quotient \<open>Math.log(b) / Math.log(1024)\<close> is
  finite and within \<open>2^-37\<close>, relatively, of the exact quotient of the logarithms.\<close>

lemma quotient_accurate:
  assumes acc: "accurate rt" and b: "2 \<le> b" "b \<le> 2 ^ 1024"
  shows "\<exists>q. divide_number rt (Math_log rt (Finite b)) (Math_log rt (Finite 1024)) = Finite q
    \<and> \<bar>q - ln b / ln 1024\<bar> \<le> (ln b / ln 1024) / 2 ^ 37 \<and> 0 < q"
proof -
  define e :: real where "e = 1 / 2 ^ 40"
  define B where "B = ln b"
  define K :: real where "K = ln 1024"
  have e: "0 < e" "e \<le> 1 / 5" by (simp_all add: e_def)
  have K: "0 < K" "5 / 2 \<le> K" "K \<le> 10"
    using ln_2_bounds by (simp_all add: K_def ln_1024)
  have "ln 2 \<le> ln b" using b by (intro ln_mono) simp_all
  then have B: "0 < B" "1 / 4 \<le> B" using ln_2_bounds by (simp_all add: B_def)
  have "ln b \<le> ln ((2::real) ^ 1024)" using b by (intro ln_mono) simp_all
  also have "\<dots> = real 1024 * ln 2" by (rule ln_realpow)
  also have "\<dots> \<le> 1024" using ln_2_bounds(2) by simp
  finally have Bup: "B \<le> 1024" by (simp only: B_def)
  have logs: "\<exists>l. Math_log rt (Finite x) = Finite l \<and> \<bar>l - ln x\<bar> \<le> \<bar>ln x\<bar> / 2 ^ 40"
    if "0 < x" for x
    using acc that unfolding accurate_def by blast
  have "0 < b" using b by simp
  from logs [OF this] obtain lb where lb0: "Math_log rt (Finite b) = Finite lb"
      "\<bar>lb - ln b\<bar> \<le> \<bar>ln b\<bar> / 2 ^ 40" by blast
  have eqb: "\<bar>ln b\<bar> / 2 ^ 40 = B * e" using B(1) by (simp add: B_def e_def)
  have lb: "Math_log rt (Finite b) = Finite lb" "\<bar>lb - B\<bar> \<le> B * e"
    using lb0(1) lb0(2) [unfolded eqb] by (simp_all only: B_def)
  have "(0::real) < 1024" by simp
  from logs [OF this] obtain lk where lk0: "Math_log rt (Finite 1024) = Finite lk"
      "\<bar>lk - ln 1024\<bar> \<le> \<bar>ln 1024\<bar> / 2 ^ 40" by blast
  have eqk: "\<bar>ln 1024\<bar> / 2 ^ 40 = K * e" using K(1) by (simp add: K_def e_def)
  have lk: "Math_log rt (Finite 1024) = Finite lk" "\<bar>lk - K\<bar> \<le> K * e"
    using lk0(1) lk0(2) [unfolded eqk] by (simp_all only: K_def)
  note rq = rel_quotient [OF B(1) K(1) e lb(2) lk(2)]
  define L where "L = B / K"
  define r where "r = lb / lk"
  have L: "1 / 40 \<le> L" "L \<le> 1024" "0 < L"
  proof -
    have "1 / 40 = (1 / 4) / (10::real)" by simp
    also have "\<dots> \<le> B / K" using B(2) K by (intro frac_le) simp_all
    finally show "1 / 40 \<le> L" by (simp only: L_def)
    have "1 \<le> K" using K(2) by linarith
    then have "B / K \<le> 1024 / 1" using Bup B(1) by (intro frac_le) simp_all
    then have "B / K \<le> 1024" by simp
    then show "L \<le> 1024" by (simp only: L_def)
    show "0 < L" using B(1) K(1) by (simp add: L_def)
  qed
  have r: "L / 2 \<le> r" "r \<le> L * 2" using rq(3,4) by (simp_all only: L_def r_def)
  have rp: "0 < r" using r(1) L(3) by linarith
  have "(1 / 2 ^ 1000 :: real) \<le> 1 / 80" by simp
  then have low: "1 / 2 ^ 1000 \<le> \<bar>r\<bar>" using r(1) L(1) by linarith
  have "(2048::real) \<le> 2 ^ 1000" by simp
  then have high: "\<bar>r\<bar> \<le> 2 ^ 1000" using r(2) L(2) rp by linarith
  have "lk \<noteq> 0" using rq(2) by simp
  with low high have "lk \<noteq> 0 \<and> 1 / 2 ^ 1000 \<le> \<bar>lb / lk\<bar> \<and> \<bar>lb / lk\<bar> \<le> 2 ^ 1000"
    by (simp only: r_def simp_thms)
  moreover have "\<And>x y. y \<noteq> 0 \<and> 1 / 2 ^ 1000 \<le> \<bar>x / y\<bar> \<and> \<bar>x / y\<bar> \<le> 2 ^ 1000 \<Longrightarrow>
         \<exists>q. divide_number rt (Finite x) (Finite y) = Finite q \<and> \<bar>q - x / y\<bar> \<le> \<bar>x / y\<bar> / 2 ^ 40"
    using acc unfolding accurate_def by blast
  ultimately obtain q where q: "divide_number rt (Finite lb) (Finite lk) = Finite q"
      "\<bar>q - lb / lk\<bar> \<le> \<bar>lb / lk\<bar> / 2 ^ 40"
    by blast
  have "\<bar>q - r\<bar> \<le> \<bar>r\<bar> / 2 ^ 40" using q(2) by (simp only: r_def)
  then have "\<bar>q - r\<bar> \<le> r * e" using rp by (simp add: e_def)
  then have "\<bar>q - lb / lk\<bar> \<le> (lb / lk) * e" by (simp only: r_def)
  from rel_chain [OF B(1) K(1) e lb(2) lk(2) this]
  have close: "\<bar>q - L\<bar> \<le> L * (5 * e)" by (simp only: L_def)
  have "L * (5 * e) \<le> L * (1 / 2 ^ 37)"
    using L(3) by (intro mult_left_mono) (simp_all add: e_def)
  with close have bound: "\<bar>q - L\<bar> \<le> L / 2 ^ 37" by simp
  have "L / 2 ^ 37 \<le> L / 2" using L(3) by (intro divide_left_mono) simp_all
  then have "0 < q" using bound L(3) by (simp only: abs_le_iff) linarith
  with q(1) lb(1) lk(1) bound show ?thesis by (simp add: L_def B_def K_def)
qed

lemma formatFileSize_i_number:
  "formatFileSize_i rt (JNumber n) =
     parseInt10 (Math_floor (divide_number rt (Math_log rt n) (Math_log rt (Finite 1024))))"
  by (simp add: formatFileSize_i_def)

lemma formatFileSize_nonzero:
  "b \<noteq> 0 \<Longrightarrow> formatFileSize rt (JNumber (Finite b)) =
     toFixed2 (divide_number rt (Finite b)
        (Math_pow rt (Finite 1024) (formatFileSize_i rt (JNumber (Finite b)))))
       @ '' '' @ template (element sizes (formatFileSize_i rt (JNumber (Finite b))))"
  by (simp add: formatFileSize_def isNaN_def Let_def)



text \<open>With the arithmetic of doubles, the index of a byte count from 2 up is the floor
  of a number close to the exact quotient of the logarithms.\<close>

lemma magnitude_accurate:
  assumes "accurate rt" "2 \<le> b" "b \<le> 2 ^ 1024"
  shows "\<exists>q. formatFileSize_i rt (JNumber (Finite b)) = Finite (of_int \<lfloor>q\<rfloor>)
    \<and> \<bar>q - ln b / ln 1024\<bar> \<le> (ln b / ln 1024) / 2 ^ 37"
  using quotient_accurate [OF assms] by (auto simp: formatFileSize_i_number)

lemma index_between:
  assumes acc: "accurate rt" and b: "2 \<le> b" "b \<le> 2 ^ 1024"
    and lo: "lo \<le> ln b / ln 1024" "real k \<le> lo * (1 - 1 / 2 ^ 37)"
    and hi: "ln b / ln 1024 \<le> hi" "hi * (1 + 1 / 2 ^ 37) < real k + 1"
  shows "formatFileSize_i rt (JNumber (Finite b)) = Finite (real k)"
proof -
  define L where "L = ln b / ln 1024"
  from magnitude_accurate [OF acc b] obtain q where
    i: "formatFileSize_i rt (JNumber (Finite b)) = Finite (of_int \<lfloor>q\<rfloor>)"
    and q: "\<bar>q - L\<bar> \<le> L / 2 ^ 37"
    unfolding L_def by blast
  define d where "d = L / 2 ^ 37"
  have "q - L \<le> d" "L - q \<le> d"
    using q unfolding d_def by (simp_all only: abs_le_iff minus_diff_eq)
  then have "L - d \<le> q" "q \<le> L + d" by linarith+
  moreover have "L * (1 - 1 / 2 ^ 37) = L - d" "L * (1 + 1 / 2 ^ 37) = L + d"
    by (simp_all add: algebra_simps d_def)
  ultimately have q1: "L * (1 - 1 / 2 ^ 37) \<le> q" "q \<le> L * (1 + 1 / 2 ^ 37)"
    by (simp_all only:)
  have "lo * (1 - 1 / 2 ^ 37) \<le> L * (1 - 1 / 2 ^ 37)"
    using lo(1) unfolding L_def by (intro mult_right_mono) simp_all
  with lo(2) q1(1) have low: "real k \<le> q" by linarith
  have "L * (1 + 1 / 2 ^ 37) \<le> hi * (1 + 1 / 2 ^ 37)"
    using hi(1) unfolding L_def by (intro mult_right_mono) simp_all
  with hi(2) q1(2) have high: "q < real k + 1" by linarith
  have "\<lfloor>q\<rfloor> = int k" using low high by (simp add: floor_eq_iff)
  with i show ?thesis by simp
qed

lemma format_at_index:
  assumes acc: "accurate rt"
    and i: "formatFileSize_i rt (JNumber (Finite b)) = Finite (real k)"
    and k: "k \<le> 102"
    and b: "0 < b" "1 / 2 ^ 1000 \<le> b / 1024 ^ k" "b / 1024 ^ k \<le> 2 ^ 1000"
  shows "formatFileSize rt (JNumber (Finite b)) =
    fixed2 (b / 1024 ^ k) @ '' '' @ template (element sizes (Finite (real k)))"
proof -
  have pow: "Math_pow rt (Finite 1024) (Finite (real k)) = Finite (1024 ^ k)"
    using acc k unfolding accurate_def by blast
  have pos: "0 < b / 1024 ^ k" using b(1) by simp
  then have "1 / 2 ^ 1000 \<le> \<bar>b / 1024 ^ k\<bar> \<and> \<bar>b / 1024 ^ k\<bar> \<le> 2 ^ 1000"
    using b(2,3) by (simp only: abs_of_pos simp_thms)
  moreover have "\<And>x k. k \<le> 102 \<and> 1 / 2 ^ 1000 \<le> \<bar>x / 1024 ^ k\<bar> \<and> \<bar>x / 1024 ^ k\<bar> \<le> 2 ^ 1000 \<Longrightarrow>
      divide_number rt (Finite x) (Finite (1024 ^ k)) = Finite (x / 1024 ^ k)"
    using acc unfolding accurate_def by blast
  ultimately have quot: "divide_number rt (Finite b) (Finite (1024 ^ k)) = Finite (b / 1024 ^ k)"
    using k by blast
  have "\<not> b / 1024 ^ k < 0" using pos by linarith
  then have "toFixed2 (Finite (b / 1024 ^ k)) = fixed2 (b / 1024 ^ k)" by simp
  then show ?thesis
    using formatFileSize_nonzero [of b rt] b(1) by (simp only: i pow quot)
qed

lemma format_1023:
  assumes acc: "accurate rt"
  shows "formatFileSize rt (JNumber (Finite 1023)) = ''1023.00 Bytes''"
proof -
  have K: "0 < ln (1024::real)" "ln (1024::real) \<le> 10"
    using ln_2_bounds by (simp_all add: ln_1024)
  have "(1 / 1023 :: real) - (1 / 1023)\<^sup>2 \<le> ln (1 + 1 / 1023)"
    by (rule ln_one_plus_pos_lower_bound) simp_all
  moreover have "ln (1 + 1 / 1023 :: real) = ln 1024 - ln 1023"
  proof -
    have "(1 + 1 / 1023 :: real) = 1024 / 1023" by simp
    then show ?thesis by (simp only: ln_div) simp
  qed
  ultimately have gap: "1 / 2000 \<le> ln (1024::real) - ln 1023"
    by (simp add: power2_eq_square)
  have "ln (1024::real) / 20000 \<le> 1 / 2000" using K(2) by simp
  with gap have "ln (1023::real) \<le> ln 1024 * (1 - 1 / 20000)" by (simp add: algebra_simps)
  then have hi: "ln (1023::real) / ln 1024 \<le> 1 - 1 / 20000"
    using K(1) by (simp add: pos_divide_le_eq mult.commute)
  have "0 \<le> ln (1023::real)" by simp
  then have lo: "0 \<le> ln (1023::real) / ln 1024" using K(1) by simp
  have "formatFileSize_i rt (JNumber (Finite 1023)) = Finite (real 0)"
    by (rule index_between [OF acc _ _ lo _ hi]) simp_all
  from format_at_index [OF acc this]
  show ?thesis by (simp add: fixed2_def decimal.simps sizes_def)
qed

lemma format_1536:
  assumes acc: "accurate rt"
  shows "formatFileSize rt (JNumber (Finite 1536)) = ''1.50 KB''"
proof -
  have K: "0 < ln (1024::real)" "5 / 2 \<le> ln (1024::real)" "ln (1024::real) \<le> 10"
    using ln_2_bounds by (simp_all add: ln_1024)
  have split: "ln (1536::real) = ln 1024 + ln (3 / 2)"
  proof -
    have "(1536::real) = 1024 * (3 / 2)" by simp
    then show ?thesis by (simp only: ln_mult) simp
  qed
  have "(1 / 2 :: real) - (1 / 2)\<^sup>2 \<le> ln (1 + 1 / 2)"
    by (rule ln_one_plus_pos_lower_bound) simp_all
  then have low: "1 / 4 \<le> ln (3 / 2 :: real)" by (simp add: power2_eq_square)
  have "ln (1 + 1 / 2 :: real) \<le> 1 / 2" by (rule ln_add_one_self_le_self) simp
  then have high: "ln (3 / 2 :: real) \<le> 1 / 2" by simp
  have "ln (1024::real) * (1 + 1 / 40) \<le> ln 1536"
    using low K(3) unfolding split by (simp add: algebra_simps)
  then have lo: "1 + 1 / 40 \<le> ln (1536::real) / ln 1024"
    using K(1) by (simp add: pos_le_divide_eq mult.commute)
  have "ln (1536::real) \<le> ln 1024 * (3 / 2)"
    using high K(2) unfolding split by (simp add: algebra_simps)
  then have hi: "ln (1536::real) / ln 1024 \<le> 3 / 2"
    using K(1) by (simp add: pos_divide_le_eq mult.commute)
  have "formatFileSize_i rt (JNumber (Finite 1536)) = Finite (real 1)"
    by (rule index_between [OF acc _ _ lo _ hi]) simp_all
  from format_at_index [OF acc this]
  show ?thesis by (simp add: fixed2_def decimal.simps sizes_def)
qed

lemma format_1024:
  assumes acc: "accurate rt"
  shows "formatFileSize rt (JNumber (Finite 1024)) = ''1.00 KB''"
proof -
  have K: "0 < ln (1024::real)" using ln_2_bounds by (simp add: ln_1024)
  have "\<And>x. 0 < x \<Longrightarrow> \<exists>l. Math_log rt (Finite x) = Finite l \<and> \<bar>l - ln x\<bar> \<le> \<bar>ln x\<bar> / 2 ^ 40"
    using acc unfolding accurate_def by blast
  from this [of 1024] obtain l where l: "Math_log rt (Finite 1024) = Finite l"
    "\<bar>l - ln 1024\<bar> \<le> \<bar>ln 1024\<bar> / 2 ^ 40" by auto
  have "\<bar>ln (1024::real)\<bar> / 2 ^ 40 \<le> ln 1024 / 2" using K by simp
  with l(2) have "\<bar>l - ln 1024\<bar> \<le> ln 1024 / 2" by linarith
  then have "ln 1024 - l \<le> ln 1024 / 2" by (simp only: abs_le_iff minus_diff_eq)
  with K have "l \<noteq> 0" by linarith
  then have "divide_number rt (Finite l) (Finite l) = Finite 1"
    using acc unfolding accurate_def by blast
  then have "formatFileSize_i rt (JNumber (Finite 1024)) = Finite (real 1)"
    by (simp add: formatFileSize_i_number l(1))
  from format_at_index [OF acc this]
  show ?thesis by (simp add: fixed2_def decimal.simps sizes_def)
qed

text \<open>The arithmetic of the examples has these properties.\<close>

lemma accurate_example: "accurate example_runtime"
proof -
  have "exact_pow (Finite 1024) (Finite (real k)) = Finite (1024 ^ k)" for k
    by (simp add: powr_realpow)
  then show ?thesis
    unfolding accurate_def by (simp add: example_runtime_def)
qed

lemma accurate_rounding: "accurate rounding_runtime"
proof -
  have pow: "exact_pow (Finite 1024) (Finite (real k)) = Finite (1024 ^ k)" for k
    by (simp add: powr_realpow)
  have "ln (1 + 1 / (1024 ^ 5 - 1) :: real) \<le> 1 / (1024 ^ 5 - 1)"
    by (rule ln_add_one_self_le_self) simp
  moreover have "ln (1 + 1 / (1024 ^ 5 - 1) :: real) = ln (1024 ^ 5) - ln (1024 ^ 5 - 1)"
  proof -
    have "(1 + 1 / (1024 ^ 5 - 1) :: real) = 1024 ^ 5 / (1024 ^ 5 - 1)" by simp
    then show ?thesis by (simp only: ln_div) (simp add: ln_div)
  qed
  ultimately have gap: "ln (1024 ^ 5 :: real) - ln (1024 ^ 5 - 1) \<le> 1 / (1024 ^ 5 - 1)" by simp
  have "ln (2::real) \<le> ln (1024 ^ 5 - 1)" by (subst ln_le_cancel_iff) simp_all
  then have low: "1 / 4 \<le> ln (1024 ^ 5 - 1 :: real)" using ln_2_bounds by linarith
  have mono: "ln (1024 ^ 5 - 1 :: real) \<le> ln (1024 ^ 5)" by (subst ln_le_cancel_iff) simp_all
  have "(1 / (1024 ^ 5 - 1) :: real) \<le> (1 / 4) / 2 ^ 40" by simp
  also have "\<dots> \<le> ln (1024 ^ 5 - 1 :: real) / 2 ^ 40" using low by (simp add: divide_right_mono)
  finally have "\<bar>ln (1024 ^ 5 :: real) - ln (1024 ^ 5 - 1)\<bar> \<le> \<bar>ln (1024 ^ 5 - 1 :: real)\<bar> / 2 ^ 40"
    using gap mono low by linarith
  then show ?thesis
    unfolding accurate_def by (simp add: rounding_runtime_def example_runtime_def powr_realpow)
qed

lemma floor_ln_ratio:
  assumes "0 < (b::real)"
  shows "\<lfloor>ln b / ln 1024\<rfloor> = k \<longleftrightarrow> 1024 powr (of_int k) \<le> b \<and> b < 1024 powr (of_int k + 1)"
  using floor_log_eq_powr_iff [of b 1024 k] assms by (simp add: log_def)

lemma floor_ln_ratio_nat:
  assumes "1024 ^ k \<le> (b::real)" "b < 1024 ^ Suc k"
  shows "\<lfloor>ln b / ln 1024\<rfloor> = int k"
proof -
  have b: "0 < b"
  proof -
    have "(0::real) < 1024 ^ k" by simp
    then show ?thesis using assms(1) by linarith
  qed
  have "(1024::real) powr (of_int (int k)) = 1024 ^ k" by (simp add: powr_realpow)
  moreover have "(1024::real) powr (of_int (int k) + 1) = 1024 ^ Suc k"
    using powr_realpow [of "1024::real" "Suc k"] by (simp add: add.commute)
  ultimately show ?thesis using floor_ln_ratio [OF b, of "int k"] assms by simp
qed

lemma example_index:
  assumes "1024 ^ k \<le> b" "b < 1024 ^ Suc k"
  shows "formatFileSize_i example_runtime (JNumber (Finite b)) = Finite (real k)"
proof -
  have "(0::real) < 1024 ^ k" by simp
  then have "0 < b" using assms(1) by linarith
  then show ?thesis
    using floor_ln_ratio_nat [OF assms]
    by (simp add: formatFileSize_i_number example_runtime_def)
qed


text \<open>Just below a power of 1024 the rounded quotient of the logarithms can reach the next
  integer: with the logarithm of \<open>1024^5 - 1\<close> rounded as doubles round it the index is 5,
  not the 4 of the exact quotient, and the unit is printed as \<open>undefined\<close>.\<close>

lemma formatFileSize_below_power:
  "formatFileSize_i rounding_runtime (JNumber (Finite (1024 ^ 5 - 1))) = Finite 5
   \<and> \<lfloor>ln (1024 ^ 5 - 1) / ln 1024 :: real\<rfloor> = 4
   \<and> formatFileSize rounding_runtime (JNumber (Finite (1024 ^ 5 - 1))) = ''1.00 undefined''"
proof -
  have "ln (1024 ^ 5 :: real) / ln 1024 = 5" using ln_realpow [of "1024::real" 5] by simp
  then have i: "formatFileSize_i rounding_runtime (JNumber (Finite (1024 ^ 5 - 1))) = Finite 5"
    by (simp add: formatFileSize_i_number rounding_runtime_def example_runtime_def)
  have "1024 ^ 4 \<le> (1024 ^ 5 - 1 :: real)" "(1024 ^ 5 - 1 :: real) < 1024 ^ Suc 4" by simp_all
  from floor_ln_ratio_nat [OF this]
  have fl: "\<lfloor>ln (1024 ^ 5 - 1) / ln 1024 :: real\<rfloor> = 4" by simp
  have fields: "divide_number rounding_runtime = exact_divide" "Math_pow rounding_runtime = exact_pow"
    by (simp_all add: rounding_runtime_def example_runtime_def)
  have nz: "(1024 ^ 5 - 1 :: real) \<noteq> 0" by simp
  from formatFileSize_nonzero [OF nz, where rt = rounding_runtime]
  have "formatFileSize rounding_runtime (JNumber (Finite (1024 ^ 5 - 1))) =
      toFixed2 (exact_divide (Finite (1024 ^ 5 - 1)) (exact_pow (Finite 1024) (Finite 5)))
        @ '' '' @ template (element sizes (Finite 5))"
    by (simp only: i fields)
  then have "formatFileSize rounding_runtime (JNumber (Finite (1024 ^ 5 - 1))) = ''1.00 undefined''"
    by (simp add: powr_realpow fixed2_def decimal.simps sizes_def)
  with i fl show ?thesis by simp
qed

text \<open>C5: for a positive byte count \<open>b\<close> the formatter computes
  \<open>i = floor(log(b) / log(1024))\<close>, with the logarithm and the quotient of the runtime, and
  returns \<open>(b / 1024^i).toFixed(2)\<close>, a space and the element of the unit table at index
  \<open>i\<close>. With the arithmetic of doubles the quotient it floors is within \<open>2^-37\<close>,
  relatively, of the exact quotient of the logarithms (for a count from 2 up), 1023 gives
  \<open>1023.00 Bytes\<close>, 1024 gives \<open>1.00 KB\<close> and 1536 gives \<open>1.50 KB\<close>.\<close>

theorem formatFileSize_magnitude_unit:
  "(0 < b \<longrightarrow>
      formatFileSize_i rt (JNumber (Finite b)) =
        parseInt10 (Math_floor (divide_number rt (Math_log rt (Finite b)) (Math_log rt (Finite 1024))))
    \<and> formatFileSize rt (JNumber (Finite b)) =
        toFixed2 (divide_number rt (Finite b)
            (Math_pow rt (Finite 1024) (formatFileSize_i rt (JNumber (Finite b)))))
          @ '' '' @ template (element sizes (formatFileSize_i rt (JNumber (Finite b)))))
   \<and> (accurate rt \<and> 2 \<le> b \<and> b \<le> 2 ^ 1024 \<longrightarrow>
        (\<exists>q. formatFileSize_i rt (JNumber (Finite b)) = Finite (of_int \<lfloor>q\<rfloor>)
           \<and> \<bar>q - ln b / ln 1024\<bar> \<le> (ln b / ln 1024) / 2 ^ 37))
   \<and> (accurate rt \<longrightarrow>
        formatFileSize rt (JNumber (Finite 1023)) = ''1023.00 Bytes''
      \<and> formatFileSize rt (JNumber (Finite 1024)) = ''1.00 KB''
      \<and> formatFileSize rt (JNumber (Finite 1536)) = ''1.50 KB'')"
proof (intro conjI impI)
  assume "0 < b"
  then show "formatFileSize rt (JNumber (Finite b)) =
        toFixed2 (divide_number rt (Finite b)
            (Math_pow rt (Finite 1024) (formatFileSize_i rt (JNumber (Finite b)))))
          @ '' '' @ template (element sizes (formatFileSize_i rt (JNumber (Finite b))))"
    by (intro formatFileSize_nonzero) simp
next
  show "formatFileSize_i rt (JNumber (Finite b)) =
        parseInt10 (Math_floor (divide_number rt (Math_log rt (Finite b)) (Math_log rt (Finite 1024))))"
    by (rule formatFileSize_i_number)
next
  assume "accurate rt \<and> 2 \<le> b \<and> b \<le> 2 ^ 1024"
  then show "\<exists>q. formatFileSize_i rt (JNumber (Finite b)) = Finite (of_int \<lfloor>q\<rfloor>)
           \<and> \<bar>q - ln b / ln 1024\<bar> \<le> (ln b / ln 1024) / 2 ^ 37"
    by (intro magnitude_accurate) simp_all
next
  assume "accurate rt"
  then show "formatFileSize rt (JNumber (Finite 1023)) = ''1023.00 Bytes''" by (rule format_1023)
next
  assume "accurate rt"
  then show "formatFileSize rt (JNumber (Finite 1024)) = ''1.00 KB''" by (rule format_1024)
next
  assume "accurate rt"
  then show "formatFileSize rt (JNumber (Finite 1536)) = ''1.50 KB''" by (rule format_1536)
qed

theorem formatFileSize_magnitude_unit_witness:
  "accurate example_runtime \<and> (0::real) < 5242880
   \<and> formatFileSize example_runtime (JNumber (Finite 5242880)) = ''5.00 MB''
   \<and> formatFileSize example_runtime (JNumber (Finite 1023)) = ''1023.00 Bytes''
   \<and> formatFileSize example_runtime (JNumber (Finite 1024)) = ''1.00 KB''
   \<and> formatFileSize example_runtime (JNumber (Finite 1536)) = ''1.50 KB''"
proof -
  have "1024 ^ 2 \<le> (5242880::real)" "(5242880::real) < 1024 ^ Suc 2" by simp_all
  from example_index [OF this]
  have i: "formatFileSize_i example_runtime (JNumber (Finite 5242880)) = Finite 2" by simp
  have quot: "divide_number example_runtime (Finite 5242880) (Math_pow example_runtime (Finite 1024) (Finite 2))
      = Finite 5"
    by (simp add: example_runtime_def)
  have "formatFileSize example_runtime (JNumber (Finite 5242880)) = ''5.00 MB''"
    using formatFileSize_magnitude_unit [of 5242880 example_runtime]
    by (simp add: i quot fixed2_def decimal.simps sizes_def)
  then show ?thesis
    using formatFileSize_magnitude_unit [of 5242880 example_runtime] accurate_example by simp
qed





text \<open>C4 at a byte count of zero: the first test of the formatter, \<open>!bytes\<close>, holds for 0,
  so the answer is \<open>Unknown\<close> and the line that returns \<open>0 Bytes\<close> is never reached; the
  caller's own test \<open>fileSize ? ... : "Unknown"\<close> gives the same. An undefined, null or NaN
  byte count gives \<open>Unknown\<close> as well.\<close>

theorem formatFileSize_zero:
  "formatFileSize rt (JNumber (Finite 0)) = ''Unknown''
   \<and> formatFileSize rt (JNumber (Finite 0)) \<noteq> ''0 Bytes''
   \<and> formatFileSize rt JUndefined = ''Unknown''
   \<and> formatFileSize rt JNull = ''Unknown''
   \<and> formatFileSize rt (JNumber NaN) = ''Unknown''"
  by (simp add: formatFileSize_def)

theorem formatFileSize_zero_witness:
  "formatFileSize example_runtime (JNumber (Finite 0)) = ''Unknown''"
  using formatFileSize_zero [of example_runtime] by simp

section \<open>The report entry\<close>

lemma unlinked_entry_fields:
  "id' (unlinked_entry rt e a) = sys_id a"
  "title (unlinked_entry rt e a) = assetTitle a"
  "contentfulUrl (unlinked_entry rt e a) =
     getContentfulWebAppUrl (SPACE_ID e) (Some (sys_id a)) (Some (ENVIRONMENT_or_master e))"
  by (simp_all add: unlinked_entry_def Let_def)

text \<open>C7, as the code has it: the title of a report entry is the localized title when
  that is truthy, otherwise the raw title when that is truthy, otherwise \<open>Untitled\<close>. It
  is the title chosen by presence whenever no title that is present is falsy (an empty
  string, null).\<close>

theorem assetTitle_fallback:
  "title (unlinked_entry rt e a) =
     (if ToBoolean (optional_member (fields_member a ''title'') ''en-US'')
      then optional_member (fields_member a ''title'') ''en-US''
      else if ToBoolean (fields_member a ''title'') then fields_member a ''title''
      else JString ''Untitled'')
   \<and> ((ToBoolean (optional_member (fields_member a ''title'') ''en-US'')
          \<or> optional_member (fields_member a ''title'') ''en-US'' = JUndefined)
        \<and> (ToBoolean (fields_member a ''title'') \<or> fields_member a ''title'' = JUndefined)
       \<longrightarrow> title (unlinked_entry rt e a) = title_by_presence a)"
  by (auto simp: unlinked_entry_fields assetTitle_def js_or_def title_by_presence_def)

theorem assetTitle_fallback_witness:
  "title (unlinked_entry example_runtime example_env asset2) = JString ''Banner''
   \<and> title_by_presence asset2 = JString ''Banner''
   \<and> title (unlinked_entry example_runtime example_env asset1) = JString ''Logo''
   \<and> title_by_presence asset1 = JString ''Logo''
   \<and> title (unlinked_entry example_runtime example_env asset3) = JString ''Untitled''
   \<and> title_by_presence asset3 = JString ''Untitled''"
  using assetTitle_fallback [of example_runtime example_env asset2]
    assetTitle_fallback [of example_runtime example_env asset1]
    assetTitle_fallback [of example_runtime example_env asset3]
  by (simp add: asset1_def asset2_def asset3_def fields_member_def title_by_presence_def)

text \<open>C7 as stated fails: a raw title that is present and empty is not used; the entry
  is titled \<open>Untitled\<close>.\<close>

theorem assetTitle_empty_title:
  "fields_member empty_title_asset ''title'' = JString []
   \<and> title_by_presence empty_title_asset = JString []
   \<and> title (unlinked_entry example_runtime example_env empty_title_asset) = JString ''Untitled''"
  by (simp add: unlinked_entry_fields assetTitle_def js_or_def title_by_presence_def
      empty_title_asset_def fields_member_def)

text \<open>C8: the deep link of a report entry is
  \<open>https://app.contentful.com/spaces/S/environments/E/assets/A\<close> for the space identifier
  \<open>S\<close>, the identifier \<open>A\<close> of the asset and the environment identifier \<open>E\<close> in force, which
  is \<open>ENVIRONMENT\<close> when that is set and not empty; the helper gives the same string for
  any three arguments.\<close>

theorem contentfulUrl_template:
  "getContentfulWebAppUrl (Some S) (Some A) (Some E) =
     ''https://app.contentful.com/spaces/'' @ S @ ''/environments/'' @ E @ ''/assets/'' @ A
   \<and> (SPACE_ID e = Some S \<longrightarrow>
        contentfulUrl (unlinked_entry rt e a) =
          ''https://app.contentful.com/spaces/'' @ S @ ''/environments/'' @ ENVIRONMENT_or_master e
            @ ''/assets/'' @ sys_id a)
   \<and> (ENVIRONMENT e = Some E \<and> E \<noteq> [] \<longrightarrow> ENVIRONMENT_or_master e = E)"
  by (simp add: unlinked_entry_fields getContentfulWebAppUrl_def ENVIRONMENT_or_master_def)

theorem contentfulUrl_template_witness:
  "SPACE_ID (example_env\<lparr>ENVIRONMENT := Some ''staging''\<rparr>) = Some ''space1''
   \<and> ENVIRONMENT (example_env\<lparr>ENVIRONMENT := Some ''staging''\<rparr>) = Some ''staging''
   \<and> ''staging'' \<noteq> []
   \<and> contentfulUrl (unlinked_entry example_runtime (example_env\<lparr>ENVIRONMENT := Some ''staging''\<rparr>) asset2) =
       ''https://app.contentful.com/spaces/space1/environments/staging/assets/a2''"
  using contentfulUrl_template [of "''space1''" "''a2''" "''staging''"
      "example_env\<lparr>ENVIRONMENT := Some ''staging''\<rparr>" example_runtime asset2]
  by (simp add: example_env_def asset2_def)

section \<open>Startup\<close>

text \<open>C9: when the space identifier or the access token is absent, the script prints
  the error and exits with code 1; it has made no request and has not called
  \<open>fs.writeFile\<close>. An absent environment identifier is replaced by \<open>master\<close>, in the
  configuration of the client as well.\<close>

theorem script_missing_configuration:
  "(SPACE_ID e = None \<or> ACCESS_TOKEN e = None \<longrightarrow>
      script rt e = Some \<lparr>events = [LogError MissingEnvironmentVariables], exit_code = 1\<rparr>
      \<and> requests [LogError MissingEnvironmentVariables] = []
      \<and> [ev \<leftarrow> [LogError MissingEnvironmentVariables]. case ev of WriteFile f d \<Rightarrow> True | _ \<Rightarrow> False] = [])
   \<and> (ENVIRONMENT e = None \<longrightarrow> ENVIRONMENT_or_master e = ''master'')
   \<and> (ENVIRONMENT e = None \<and> \<not> falsy (SPACE_ID e) \<and> \<not> falsy (ACCESS_TOKEN e) \<longrightarrow>
        script rt e = main rt e
          (createClient rt \<lparr>space = SPACE_ID e, environment = ''master'', accessToken = ACCESS_TOKEN e\<rparr>))"
  by (auto simp: script_def falsy_def ENVIRONMENT_or_master_def)

theorem script_missing_configuration_witness:
  "SPACE_ID (example_env\<lparr>SPACE_ID := None\<rparr>) = None
   \<and> script example_runtime (example_env\<lparr>SPACE_ID := None\<rparr>) =
        Some \<lparr>events = [LogError MissingEnvironmentVariables], exit_code = 1\<rparr>
   \<and> ENVIRONMENT example_env = None
   \<and> ENVIRONMENT_or_master example_env = ''master''"
  using script_missing_configuration [of "example_env\<lparr>SPACE_ID := None\<rparr>" example_runtime]
    script_missing_configuration [of example_env example_runtime]
  by (simp add: example_env_def)

section \<open>Properties of the scan\<close>

lemma requests_append: "requests (tr @ tr') = requests tr @ requests tr'"
  by (induction tr rule: requests.induct) simp_all

lemma page_requests_append: "page_requests (tr @ tr') = page_requests tr @ page_requests tr'"
  by (simp add: page_requests_def requests_append)

lemma check_requests_append: "check_requests (tr @ tr') = check_requests tr @ check_requests tr'"
  by (simp add: check_requests_def requests_append)

lemma for_assets_answered:
  assumes "\<forall>a \<in> set batch. \<exists>t. getEntries c (sys_id a) 1 = Inr t"
  shows "\<exists>st'. for_assets rt e c batch st = (st', None)
    \<and> unlinkedAssets st' = unlinkedAssets st @ map (unlinked_entry rt e) (filter (reported_zero c) batch)
    \<and> skip st' = skip st
    \<and> requests (trace st') = requests (trace st) @ map (\<lambda>a. GetEntries (sys_id a) 1) batch"
  using assms
proof (induction batch arbitrary: st)
  case Nil
  then show ?case by simp
next
  case (Cons a batch)
  from Cons.prems obtain t where t: "getEntries c (sys_id a) 1 = Inr t" by auto
  have rest: "\<forall>a \<in> set batch. \<exists>t. getEntries c (sys_id a) 1 = Inr t" using Cons.prems by simp
  show ?case
  proof (cases "t = JNumber (Finite 0)")
    case True
    let ?st = "st\<lparr>trace := trace st @ [Call (GetEntries (sys_id a) 1)]\<rparr>"
    let ?st2 = "?st\<lparr>unlinkedAssets := unlinkedAssets ?st @ [unlinked_entry rt e a],
                         trace := trace ?st @ [Log (FoundUnlinkedAsset (assetTitle a))]\<rparr>"
    from Cons.IH [OF rest, of ?st2] obtain st' where
      "for_assets rt e c batch ?st2 = (st', None)"
      "unlinkedAssets st' = unlinkedAssets ?st2 @ map (unlinked_entry rt e) (filter (reported_zero c) batch)"
      "skip st' = skip ?st2"
      "requests (trace st') = requests (trace ?st2) @ map (\<lambda>a. GetEntries (sys_id a) 1) batch"
      by blast
    moreover have "reported_zero c a" using t True by (simp add: reported_zero_def)
    ultimately show ?thesis using t True
      by (simp add: requests_append)
  next
    case False
    let ?st = "st\<lparr>trace := trace st @ [Call (GetEntries (sys_id a) 1)]\<rparr>"
    from Cons.IH [OF rest, of ?st] obtain st' where
      "for_assets rt e c batch ?st = (st', None)"
      "unlinkedAssets st' = unlinkedAssets ?st @ map (unlinked_entry rt e) (filter (reported_zero c) batch)"
      "skip st' = skip ?st"
      "requests (trace st') = requests (trace ?st) @ map (\<lambda>a. GetEntries (sys_id a) 1) batch"
      by blast
    moreover have "\<not> reported_zero c a" using t False by (simp add: reported_zero_def)
    ultimately show ?thesis using t False
      by (simp add: requests_append)
  qed
qed

lemma for_assets_thrown:
  assumes "\<forall>a \<in> set pre. \<exists>t. getEntries c (sys_id a) 1 = Inr t"
    and "getEntries c (sys_id a) 1 = Inl err"
  shows "\<exists>st'. for_assets rt e c (pre @ a # post) st = (st', Some err)
    \<and> unlinkedAssets st' = unlinkedAssets st @ map (unlinked_entry rt e) (filter (reported_zero c) pre)
    \<and> skip st' = skip st
    \<and> requests (trace st') = requests (trace st) @ map (\<lambda>a. GetEntries (sys_id a) 1) (pre @ [a])"
  using assms
proof (induction pre arbitrary: st)
  case Nil
  then show ?case by (simp add: requests_append)
next
  case (Cons b pre)
  from Cons.prems obtain t where t: "getEntries c (sys_id b) 1 = Inr t" by auto
  have rest: "\<forall>a \<in> set pre. \<exists>t. getEntries c (sys_id a) 1 = Inr t" using Cons.prems by simp
  show ?case
  proof (cases "t = JNumber (Finite 0)")
    case True
    let ?st = "st\<lparr>trace := trace st @ [Call (GetEntries (sys_id b) 1)]\<rparr>"
    let ?st2 = "?st\<lparr>unlinkedAssets := unlinkedAssets ?st @ [unlinked_entry rt e b],
                         trace := trace ?st @ [Log (FoundUnlinkedAsset (assetTitle b))]\<rparr>"
    from Cons.IH [OF rest Cons.prems(2), of ?st2] obtain st' where
      "for_assets rt e c (pre @ a # post) ?st2 = (st', Some err)"
      "unlinkedAssets st' = unlinkedAssets ?st2 @ map (unlinked_entry rt e) (filter (reported_zero c) pre)"
      "skip st' = skip ?st2"
      "requests (trace st') = requests (trace ?st2) @ map (\<lambda>a. GetEntries (sys_id a) 1) (pre @ [a])"
      by blast
    moreover have "reported_zero c b" using t True by (simp add: reported_zero_def)
    ultimately show ?thesis using t True
      by (simp add: requests_append)
  next
    case False
    let ?st = "st\<lparr>trace := trace st @ [Call (GetEntries (sys_id b) 1)]\<rparr>"
    from Cons.IH [OF rest Cons.prems(2), of ?st] obtain st' where
      "for_assets rt e c (pre @ a # post) ?st = (st', Some err)"
      "unlinkedAssets st' = unlinkedAssets ?st @ map (unlinked_entry rt e) (filter (reported_zero c) pre)"
      "skip st' = skip ?st"
      "requests (trace st') = requests (trace ?st) @ map (\<lambda>a. GetEntries (sys_id a) 1) (pre @ [a])"
      by blast
    moreover have "\<not> reported_zero c b" using t False by (simp add: reported_zero_def)
    ultimately show ?thesis using t False
      by (simp add: requests_append)
  qed
qed

lemma limit_pos: "0 < limit"
  by (simp add: limit_def)

text \<open>One turn of the loop on a full page whose checks are all answered.\<close>

lemma while_full_page:
  assumes page: "getAssets c (skip st) limit ''sys.createdAt'' = Inr batch"
    and full: "length batch = limit"
    and answered: "\<forall>a \<in> set batch. \<exists>t. getEntries c (sys_id a) 1 = Inr t"
  shows "\<exists>st'. while_hasMoreAssets rt e c st = while_hasMoreAssets rt e c st'
    \<and> skip st' = skip st + limit
    \<and> unlinkedAssets st' = unlinkedAssets st @ map (unlinked_entry rt e) (filter (reported_zero c) batch)
    \<and> requests (trace st') = requests (trace st)
         @ GetAssets (skip st) limit ''sys.createdAt'' # map (\<lambda>a. GetEntries (sys_id a) 1) batch"
proof -
  let ?st1 = "st\<lparr>trace := trace st @ [Log (FetchingAssets (skip st) limit),
                                     Call (GetAssets (skip st) limit ''sys.createdAt'')]\<rparr>"
  from for_assets_answered [OF answered, of rt e ?st1] obtain st2 where
    st2: "for_assets rt e c batch ?st1 = (st2, None)"
      "unlinkedAssets st2 = unlinkedAssets ?st1 @ map (unlinked_entry rt e) (filter (reported_zero c) batch)"
      "skip st2 = skip ?st1"
      "requests (trace st2) = requests (trace ?st1) @ map (\<lambda>a. GetEntries (sys_id a) 1) batch"
    by blast
  have "while_hasMoreAssets rt e c st = while_hasMoreAssets rt e c (st2\<lparr>skip := skip st2 + limit\<rparr>)"
    using page full st2(1) limit_pos by (subst while_hasMoreAssets.simps) simp
  moreover have "skip (st2\<lparr>skip := skip st2 + limit\<rparr>) = skip st + limit"
    using st2(3) by simp
  moreover have "unlinkedAssets (st2\<lparr>skip := skip st2 + limit\<rparr>) =
      unlinkedAssets st @ map (unlinked_entry rt e) (filter (reported_zero c) batch)"
    using st2(2) by simp
  moreover have "requests (trace (st2\<lparr>skip := skip st2 + limit\<rparr>)) = requests (trace st)
         @ GetAssets (skip st) limit ''sys.createdAt'' # map (\<lambda>a. GetEntries (sys_id a) 1) batch"
    using st2(4) by (simp add: requests_append)
  ultimately show ?thesis by blast
qed

text \<open>The last turn: a page that is empty or shorter than \<open>limit\<close>.\<close>

lemma while_short_page:
  assumes page: "getAssets c (skip st) limit ''sys.createdAt'' = Inr batch"
    and short: "length batch < limit"
    and answered: "\<forall>a \<in> set batch. \<exists>t. getEntries c (sys_id a) 1 = Inr t"
  shows "\<exists>st'. while_hasMoreAssets rt e c st = Some st'
    \<and> unlinkedAssets st' = unlinkedAssets st @ map (unlinked_entry rt e) (filter (reported_zero c) batch)
    \<and> requests (trace st') = requests (trace st)
         @ GetAssets (skip st) limit ''sys.createdAt'' # map (\<lambda>a. GetEntries (sys_id a) 1) batch"
proof (cases "batch = []")
  case True
  then show ?thesis using page
    by (subst while_hasMoreAssets.simps) (simp add: requests_append)
next
  case False
  let ?st1 = "st\<lparr>trace := trace st @ [Log (FetchingAssets (skip st) limit),
                                     Call (GetAssets (skip st) limit ''sys.createdAt'')]\<rparr>"
  from for_assets_answered [OF answered, of rt e ?st1] obtain st2 where
    st2: "for_assets rt e c batch ?st1 = (st2, None)"
      "unlinkedAssets st2 = unlinkedAssets ?st1 @ map (unlinked_entry rt e) (filter (reported_zero c) batch)"
      "skip st2 = skip ?st1"
      "requests (trace st2) = requests (trace ?st1) @ map (\<lambda>a. GetEntries (sys_id a) 1) batch"
    by blast
  have "while_hasMoreAssets rt e c st = Some (st2\<lparr>skip := skip st2 + limit\<rparr>)"
    using page short False st2(1) by (subst while_hasMoreAssets.simps) simp
  moreover have "unlinkedAssets (st2\<lparr>skip := skip st2 + limit\<rparr>) =
      unlinkedAssets st @ map (unlinked_entry rt e) (filter (reported_zero c) batch)"
    using st2(2) by simp
  moreover have "requests (trace (st2\<lparr>skip := skip st2 + limit\<rparr>)) = requests (trace st)
         @ GetAssets (skip st) limit ''sys.createdAt'' # map (\<lambda>a. GetEntries (sys_id a) 1) batch"
    using st2(4) by (simp add: requests_append)
  ultimately show ?thesis by blast
qed

text \<open>A turn whose listing request throws.\<close>

lemma while_page_thrown:
  assumes page: "getAssets c (skip st) limit ''sys.createdAt'' = Inl (Error m)"
  shows "\<exists>st'. while_hasMoreAssets rt e c st = Some st'
    \<and> unlinkedAssets st' = unlinkedAssets st
    \<and> requests (trace st') = requests (trace st) @ [GetAssets (skip st) limit ''sys.createdAt'']
    \<and> last (trace st') = LogError (ErrorFetchingOrProcessing m)"
  using page by (subst while_hasMoreAssets.simps) (simp add: requests_append)

text \<open>A turn in which a reference query throws.\<close>

lemma while_check_thrown:
  assumes page: "getAssets c (skip st) limit ''sys.createdAt'' = Inr (pre @ a # post)"
    and answered: "\<forall>a \<in> set pre. \<exists>t. getEntries c (sys_id a) 1 = Inr t"
    and thrown: "getEntries c (sys_id a) 1 = Inl (Error m)"
  shows "\<exists>st'. while_hasMoreAssets rt e c st = Some st'
    \<and> unlinkedAssets st' = unlinkedAssets st @ map (unlinked_entry rt e) (filter (reported_zero c) pre)
    \<and> requests (trace st') = requests (trace st)
         @ GetAssets (skip st) limit ''sys.createdAt'' # map (\<lambda>a. GetEntries (sys_id a) 1) (pre @ [a])
    \<and> last (trace st') = LogError (ErrorFetchingOrProcessing m)"
proof -
  let ?st1 = "st\<lparr>trace := trace st @ [Log (FetchingAssets (skip st) limit),
                                     Call (GetAssets (skip st) limit ''sys.createdAt'')]\<rparr>"
  from for_assets_thrown [OF answered thrown, of rt e post ?st1] obtain st2 where
    st2: "for_assets rt e c (pre @ a # post) ?st1 = (st2, Some (Error m))"
      "unlinkedAssets st2 = unlinkedAssets ?st1 @ map (unlinked_entry rt e) (filter (reported_zero c) pre)"
      "skip st2 = skip ?st1"
      "requests (trace st2) = requests (trace ?st1) @ map (\<lambda>a. GetEntries (sys_id a) 1) (pre @ [a])"
    by blast
  have "while_hasMoreAssets rt e c st = Some (catch_error (Error m) st2)"
    using page st2(1) by (subst while_hasMoreAssets.simps) simp
  moreover have "unlinkedAssets (catch_error (Error m) st2) =
      unlinkedAssets st @ map (unlinked_entry rt e) (filter (reported_zero c) pre)"
    using st2(2) by simp
  moreover have "requests (trace (catch_error (Error m) st2)) = requests (trace st)
         @ GetAssets (skip st) limit ''sys.createdAt'' # map (\<lambda>a. GetEntries (sys_id a) 1) (pre @ [a])"
    using st2(4) by (simp add: requests_append)
  moreover have "last (trace (catch_error (Error m) st2)) = LogError (ErrorFetchingOrProcessing m)"
    by simp
  ultimately show ?thesis by blast
qed

lemma repository_getAssets:
  "getAssets (repository as check page_error) s l ord =
     (case page_error s of Some err \<Rightarrow> Inl err | None \<Rightarrow> Inr (take l (drop s as)))"
  by (simp add: repository_def)

lemma repository_getEntries: "getEntries (repository as check page_error) i l = check i"
  by (simp add: repository_def)

lemma no_page_request_among_checks:
  "filter is_GetAssets (map (\<lambda>a. GetEntries (f a) n) xs) = []"
  by (induction xs) simp_all

lemma checks_only:
  "filter (\<lambda>r. \<not> is_GetAssets r) (map (\<lambda>a. GetEntries (f a) n) xs) = map (\<lambda>a. GetEntries (f a) n) xs"
  by (induction xs) simp_all

text \<open>The first \<open>k\<close> turns of the loop, when the first \<open>k\<close> pages are full and every request
  for them is answered.\<close>

lemma while_full_pages:
  assumes "\<forall>j<k. page_error (j * limit) = None"
    and "k * limit \<le> length as"
    and "\<forall>a \<in> set (take (k * limit) as). \<exists>t. check (sys_id a) = Inr t"
    and "skip st = 0"
  shows "\<exists>st'. while_hasMoreAssets rt e (repository as check page_error) st =
        while_hasMoreAssets rt e (repository as check page_error) st'
    \<and> skip st' = k * limit
    \<and> unlinkedAssets st' = unlinkedAssets st
         @ map (unlinked_entry rt e) (filter (reported_zero (repository as check page_error)) (take (k * limit) as))
    \<and> page_requests (trace st') = page_requests (trace st)
         @ map (\<lambda>j. GetAssets (j * limit) limit ''sys.createdAt'') [0..<k]
    \<and> check_requests (trace st') = check_requests (trace st)
         @ map (\<lambda>a. GetEntries (sys_id a) 1) (take (k * limit) as)"
  using assms(1-3)
proof (induction k)
  case 0
  show ?case using assms(4) by auto
next
  case (Suc k)
  let ?c = "repository as check page_error"
  let ?batch = "take limit (drop (k * limit) as)"
  have "Suc k * limit = k * limit + limit" by simp
  then have split: "take (Suc k * limit) as = take (k * limit) as @ ?batch"
    by (simp only: take_add)
  have "\<forall>j<k. page_error (j * limit) = None" using Suc.prems(1) by simp
  moreover have "k * limit \<le> length as" using Suc.prems(2) by simp
  moreover have "\<forall>a \<in> set (take (k * limit) as). \<exists>t. check (sys_id a) = Inr t"
    using Suc.prems(3) split by simp
  ultimately obtain stk where stk:
    "while_hasMoreAssets rt e ?c st = while_hasMoreAssets rt e ?c stk"
    "skip stk = k * limit"
    "unlinkedAssets stk = unlinkedAssets st
         @ map (unlinked_entry rt e) (filter (reported_zero ?c) (take (k * limit) as))"
    "page_requests (trace stk) = page_requests (trace st)
         @ map (\<lambda>j. GetAssets (j * limit) limit ''sys.createdAt'') [0..<k]"
    "check_requests (trace stk) = check_requests (trace st)
         @ map (\<lambda>a. GetEntries (sys_id a) 1) (take (k * limit) as)"
    using Suc.IH by blast
  have "page_error (k * limit) = None" using Suc.prems(1) by simp
  then have page: "getAssets ?c (skip stk) limit ''sys.createdAt'' = Inr ?batch"
    using stk(2) by (simp add: repository_getAssets)
  have full: "length ?batch = limit" using Suc.prems(2) by simp
  have answered: "\<forall>a \<in> set ?batch. \<exists>t. getEntries ?c (sys_id a) 1 = Inr t"
    using Suc.prems(3) split by (simp add: repository_getEntries)
  from while_full_page [OF page full answered, of rt e] obtain st' where st':
    "while_hasMoreAssets rt e ?c stk = while_hasMoreAssets rt e ?c st'"
    "skip st' = skip stk + limit"
    "unlinkedAssets st' = unlinkedAssets stk @ map (unlinked_entry rt e) (filter (reported_zero ?c) ?batch)"
    "requests (trace st') = requests (trace stk)
         @ GetAssets (skip stk) limit ''sys.createdAt'' # map (\<lambda>a. GetEntries (sys_id a) 1) ?batch"
    by blast
  have "while_hasMoreAssets rt e ?c st = while_hasMoreAssets rt e ?c st'"
    using stk(1) st'(1) by simp
  moreover have "skip st' = Suc k * limit" using st'(2) stk(2) by simp
  moreover have "unlinkedAssets st' = unlinkedAssets st
         @ map (unlinked_entry rt e) (filter (reported_zero ?c) (take (Suc k * limit) as))"
    using st'(3) stk(3) by (simp only: split filter_append map_append append_assoc)
  moreover have "page_requests (trace st') = page_requests (trace st)
         @ map (\<lambda>j. GetAssets (j * limit) limit ''sys.createdAt'') [0..<Suc k]"
    using st'(4) stk(4) stk(2) by (simp add: page_requests_def no_page_request_among_checks)
  moreover have "check_requests (trace st') = check_requests (trace st)
         @ map (\<lambda>a. GetEntries (sys_id a) 1) (take (Suc k * limit) as)"
  proof -
    have "check_requests (trace st') = check_requests (trace stk) @ map (\<lambda>a. GetEntries (sys_id a) 1) ?batch"
      using st'(4) by (simp add: check_requests_def checks_only)
    then show ?thesis using stk(5) by (simp only: split map_append append_assoc)
  qed
  ultimately show ?case by blast
qed

lemma findUnlinkedAssets_while:
  assumes "while_hasMoreAssets rt e c \<lparr>unlinkedAssets = [], skip = 0, trace = [Log StartingScan]\<rparr> = Some st'"
  shows "findUnlinkedAssets rt e c = Some (unlinkedAssets st', trace st')"
  using assms by (simp add: findUnlinkedAssets_def)

text \<open>The scan of a repository that answers every request.\<close>

lemma scan_fixed_repository:
  "\<exists>tr. findUnlinkedAssets rt e (fixed_repository as total_of) =
      Some (map (unlinked_entry rt e) (filter (reported_zero (fixed_repository as total_of)) as), tr)
    \<and> page_requests tr = map (\<lambda>j. GetAssets (j * limit) limit ''sys.createdAt'') [0..<length as div limit + 1]
    \<and> check_requests tr = map (\<lambda>a. GetEntries (sys_id a) 1) as"
proof -
  let ?check = "\<lambda>assetId. Inr (total_of assetId) :: error + js"
  let ?c = "repository as ?check (\<lambda>skip. None)"
  let ?k = "length as div limit"
  let ?st = "\<lparr>unlinkedAssets = [], skip = 0, trace = [Log StartingScan]\<rparr>"
  let ?batch = "take limit (drop (?k * limit) as)"
  have c: "fixed_repository as total_of = ?c" by (simp add: fixed_repository_def)
  have "\<forall>j<?k. (\<lambda>skip. None :: error option) (j * limit) = None" by simp
  moreover have "?k * limit \<le> length as" by simp
  moreover have "\<forall>a \<in> set (take (?k * limit) as). \<exists>t. ?check (sys_id a) = Inr t" by simp
  moreover have "skip ?st = 0" by simp
  ultimately obtain stk where stk:
    "while_hasMoreAssets rt e ?c ?st = while_hasMoreAssets rt e ?c stk"
    "skip stk = ?k * limit"
    "unlinkedAssets stk = unlinkedAssets ?st
         @ map (unlinked_entry rt e) (filter (reported_zero ?c) (take (?k * limit) as))"
    "page_requests (trace stk) = page_requests (trace ?st)
         @ map (\<lambda>j. GetAssets (j * limit) limit ''sys.createdAt'') [0..<?k]"
    "check_requests (trace stk) = check_requests (trace ?st)
         @ map (\<lambda>a. GetEntries (sys_id a) 1) (take (?k * limit) as)"
    using while_full_pages [of ?k "\<lambda>skip. None" as ?check ?st rt e] by blast
  have page: "getAssets ?c (skip stk) limit ''sys.createdAt'' = Inr ?batch"
    using stk(2) by (simp add: repository_getAssets)
  have "length as - ?k * limit = length as mod limit"
    by (simp add: minus_div_mult_eq_mod)
  then have short: "length ?batch < limit" using limit_pos by simp
  have answered: "\<forall>a \<in> set ?batch. \<exists>t. getEntries ?c (sys_id a) 1 = Inr t"
    by (simp add: repository_getEntries)
  from while_short_page [OF page short answered, of rt e] obtain st' where st':
    "while_hasMoreAssets rt e ?c stk = Some st'"
    "unlinkedAssets st' = unlinkedAssets stk @ map (unlinked_entry rt e) (filter (reported_zero ?c) ?batch)"
    "requests (trace st') = requests (trace stk)
         @ GetAssets (skip stk) limit ''sys.createdAt'' # map (\<lambda>a. GetEntries (sys_id a) 1) ?batch"
    by blast
  have "length (drop (?k * limit) as) \<le> limit"
    using \<open>length as - ?k * limit = length as mod limit\<close> limit_pos by simp
  then have "?batch = drop (?k * limit) as" by (rule take_all)
  then have whole: "take (?k * limit) as @ ?batch = as" by simp
  have "findUnlinkedAssets rt e ?c = Some (unlinkedAssets st', trace st')"
    using stk(1) st'(1) by (simp add: findUnlinkedAssets_while)
  moreover have "unlinkedAssets st' = map (unlinked_entry rt e) (filter (reported_zero ?c) as)"
  proof -
    have "unlinkedAssets st' = map (unlinked_entry rt e) (filter (reported_zero ?c) (take (?k * limit) as @ ?batch))"
      using st'(2) stk(3) by (simp only: filter_append map_append) simp
    then show ?thesis by (simp only: whole)
  qed
  moreover have "page_requests (trace st') =
      map (\<lambda>j. GetAssets (j * limit) limit ''sys.createdAt'') [0..<?k + 1]"
    using st'(3) stk(4) stk(2)
    by (simp add: page_requests_def no_page_request_among_checks)
  moreover have "check_requests (trace st') = map (\<lambda>a. GetEntries (sys_id a) 1) as"
  proof -
    have "check_requests (trace st') = map (\<lambda>a. GetEntries (sys_id a) 1) (take (?k * limit) as @ ?batch)"
      using st'(3) stk(5) by (simp add: check_requests_def checks_only)
    then show ?thesis by (simp only: whole)
  qed
  ultimately have "findUnlinkedAssets rt e ?c =
      Some (map (unlinked_entry rt e) (filter (reported_zero ?c) as), trace st')
    \<and> page_requests (trace st') = map (\<lambda>j. GetAssets (j * limit) limit ''sys.createdAt'') [0..<?k + 1]
    \<and> check_requests (trace st') = map (\<lambda>a. GetEntries (sys_id a) 1) as"
    by simp
  then show ?thesis unfolding c by (rule exI)
qed

text \<open>The scan of a repository whose listing request for page \<open>k\<close> throws, every request
  before it being answered.\<close>

lemma scan_page_thrown:
  assumes before: "\<forall>j<k. page_error (j * limit) = None"
    and thrown: "page_error (k * limit) = Some (Error m)"
    and reached: "k * limit \<le> length as"
    and answered: "\<forall>a \<in> set (take (k * limit) as). \<exists>t. check (sys_id a) = Inr t"
  shows "\<exists>tr. findUnlinkedAssets rt e (repository as check page_error) =
      Some (map (unlinked_entry rt e)
              (filter (reported_zero (repository as check page_error)) (take (k * limit) as)), tr)
    \<and> page_requests tr = map (\<lambda>j. GetAssets (j * limit) limit ''sys.createdAt'') [0..<k + 1]
    \<and> check_requests tr = map (\<lambda>a. GetEntries (sys_id a) 1) (take (k * limit) as)
    \<and> last (requests tr) = GetAssets (k * limit) limit ''sys.createdAt''
    \<and> last tr = LogError (ErrorFetchingOrProcessing m)"
proof -
  let ?c = "repository as check page_error"
  let ?st = "\<lparr>unlinkedAssets = [], skip = 0, trace = [Log StartingScan]\<rparr>"
  have "skip ?st = 0" by simp
  from while_full_pages [OF before reached answered this, of rt e] obtain stk where stk:
    "while_hasMoreAssets rt e ?c ?st = while_hasMoreAssets rt e ?c stk"
    "skip stk = k * limit"
    "unlinkedAssets stk = unlinkedAssets ?st
         @ map (unlinked_entry rt e) (filter (reported_zero ?c) (take (k * limit) as))"
    "page_requests (trace stk) = page_requests (trace ?st)
         @ map (\<lambda>j. GetAssets (j * limit) limit ''sys.createdAt'') [0..<k]"
    "check_requests (trace stk) = check_requests (trace ?st)
         @ map (\<lambda>a. GetEntries (sys_id a) 1) (take (k * limit) as)"
    by blast
  have page: "getAssets ?c (skip stk) limit ''sys.createdAt'' = Inl (Error m)"
    using stk(2) thrown by (simp add: repository_getAssets)
  from while_page_thrown [OF page, of rt e] obtain st' where st':
    "while_hasMoreAssets rt e ?c stk = Some st'"
    "unlinkedAssets st' = unlinkedAssets stk"
    "requests (trace st') = requests (trace stk) @ [GetAssets (skip stk) limit ''sys.createdAt'']"
    "last (trace st') = LogError (ErrorFetchingOrProcessing m)"
    by blast
  have "findUnlinkedAssets rt e ?c = Some (unlinkedAssets st', trace st')"
    using stk(1) st'(1) by (simp add: findUnlinkedAssets_while)
  moreover have "unlinkedAssets st' =
      map (unlinked_entry rt e) (filter (reported_zero ?c) (take (k * limit) as))"
    using st'(2) stk(3) by simp
  moreover have "page_requests (trace st') =
      map (\<lambda>j. GetAssets (j * limit) limit ''sys.createdAt'') [0..<k + 1]"
    using st'(3) stk(4) stk(2) by (simp add: page_requests_def)
  moreover have "check_requests (trace st') =
      map (\<lambda>a. GetEntries (sys_id a) 1) (take (k * limit) as)"
    using st'(3) stk(5) by (simp add: check_requests_def)
  moreover have "last (requests (trace st')) = GetAssets (k * limit) limit ''sys.createdAt''"
    using st'(3) stk(2) by simp
  ultimately have "findUnlinkedAssets rt e ?c =
      Some (map (unlinked_entry rt e) (filter (reported_zero ?c) (take (k * limit) as)), trace st')
    \<and> page_requests (trace st') = map (\<lambda>j. GetAssets (j * limit) limit ''sys.createdAt'') [0..<k + 1]
    \<and> check_requests (trace st') = map (\<lambda>a. GetEntries (sys_id a) 1) (take (k * limit) as)
    \<and> last (requests (trace st')) = GetAssets (k * limit) limit ''sys.createdAt''
    \<and> last (trace st') = LogError (ErrorFetchingOrProcessing m)"
    using st'(4) by simp
  then show ?thesis by (rule exI)
qed

text \<open>The scan of a repository whose reference query for the asset at position \<open>n\<close>
  throws, every request before it being answered.\<close>

lemma scan_check_thrown:
  assumes position: "n < length as"
    and pages: "\<forall>j \<le> n div limit. page_error (j * limit) = None"
    and answered: "\<forall>a \<in> set (take n as). \<exists>t. check (sys_id a) = Inr t"
    and thrown: "check (sys_id (as ! n)) = Inl (Error m)"
  shows "\<exists>tr. findUnlinkedAssets rt e (repository as check page_error) =
      Some (map (unlinked_entry rt e)
              (filter (reported_zero (repository as check page_error)) (take n as)), tr)
    \<and> page_requests tr = map (\<lambda>j. GetAssets (j * limit) limit ''sys.createdAt'') [0..<n div limit + 1]
    \<and> check_requests tr = map (\<lambda>a. GetEntries (sys_id a) 1) (take (Suc n) as)
    \<and> last (requests tr) = GetEntries (sys_id (as ! n)) 1
    \<and> last tr = LogError (ErrorFetchingOrProcessing m)"
proof -
  let ?c = "repository as check page_error"
  let ?st = "\<lparr>unlinkedAssets = [], skip = 0, trace = [Log StartingScan]\<rparr>"
  let ?k = "n div limit"
  let ?i = "n mod limit"
  let ?rest = "drop (?k * limit) as"
  let ?batch = "take limit ?rest"
  have n: "?k * limit + ?i = n" by simp
  have i: "?i < limit" using limit_pos by simp
  have le: "?k * limit \<le> n" by simp
  have "skip ?st = 0" by simp
  moreover have "\<forall>j<?k. page_error (j * limit) = None" using pages by simp
  moreover have "?k * limit \<le> length as" using le position by linarith
  moreover have "\<forall>a \<in> set (take (?k * limit) as). \<exists>t. check (sys_id a) = Inr t"
    using answered le by (meson set_take_subset_set_take subsetD)
  ultimately obtain stk where stk:
    "while_hasMoreAssets rt e ?c ?st = while_hasMoreAssets rt e ?c stk"
    "skip stk = ?k * limit"
    "unlinkedAssets stk = unlinkedAssets ?st
         @ map (unlinked_entry rt e) (filter (reported_zero ?c) (take (?k * limit) as))"
    "page_requests (trace stk) = page_requests (trace ?st)
         @ map (\<lambda>j. GetAssets (j * limit) limit ''sys.createdAt'') [0..<?k]"
    "check_requests (trace stk) = check_requests (trace ?st)
         @ map (\<lambda>a. GetEntries (sys_id a) 1) (take (?k * limit) as)"
    using while_full_pages [of ?k page_error as check ?st rt e] by blast
  have "?k * limit + ?i < length as" using position by (simp only: n)
  then have "?i < length as - ?k * limit" by linarith
  then have len: "?i < length ?batch" using i by simp
  have pre: "take ?i ?batch = take ?i ?rest" using i by (simp add: min_def)
  have "?rest ! ?i = as ! (?k * limit + ?i)"
    using le position by (simp only: nth_drop)
  then have "?rest ! ?i = as ! n" by (simp only: n)
  then have nth: "?batch ! ?i = as ! n" using i by (simp only: nth_take)
  have taken: "take (?k * limit) as @ take ?i ?rest = take n as"
    using take_add [of "?k * limit" ?i as] n by simp
  have taken_Suc: "take (?k * limit) as @ take ?i ?rest @ [as ! n] = take (Suc n) as"
    using taken position by (simp add: take_Suc_conv_app_nth flip: append_assoc)
  have batch: "?batch = take ?i ?rest @ as ! n # drop (Suc ?i) ?batch"
    using id_take_nth_drop [OF len] pre nth by simp
  have "page_error (?k * limit) = None" using pages by simp
  then have page: "getAssets ?c (skip stk) limit ''sys.createdAt'' =
      Inr (take ?i ?rest @ as ! n # drop (Suc ?i) ?batch)"
    using stk(2) batch by (simp add: repository_getAssets)
  have ok: "\<forall>a \<in> set (take ?i ?rest). \<exists>t. getEntries ?c (sys_id a) 1 = Inr t"
  proof
    fix a assume "a \<in> set (take ?i ?rest)"
    then have "a \<in> set (take n as)" using taken by (metis Un_iff set_append)
    then show "\<exists>t. getEntries ?c (sys_id a) 1 = Inr t"
      using answered by (simp add: repository_getEntries)
  qed
  have bad: "getEntries ?c (sys_id (as ! n)) 1 = Inl (Error m)"
    using thrown by (simp add: repository_getEntries)
  from while_check_thrown [OF page ok bad, of rt e] obtain st' where st':
    "while_hasMoreAssets rt e ?c stk = Some st'"
    "unlinkedAssets st' = unlinkedAssets stk
       @ map (unlinked_entry rt e) (filter (reported_zero ?c) (take ?i ?rest))"
    "requests (trace st') = requests (trace stk)
       @ GetAssets (skip stk) limit ''sys.createdAt''
         # map (\<lambda>a. GetEntries (sys_id a) 1) (take ?i ?rest @ [as ! n])"
    "last (trace st') = LogError (ErrorFetchingOrProcessing m)"
    by blast
  have "findUnlinkedAssets rt e ?c = Some (unlinkedAssets st', trace st')"
    using stk(1) st'(1) by (simp add: findUnlinkedAssets_while)
  moreover have "unlinkedAssets st' = map (unlinked_entry rt e) (filter (reported_zero ?c) (take n as))"
  proof -
    have "unlinkedAssets st' = map (unlinked_entry rt e)
        (filter (reported_zero ?c) (take (?k * limit) as @ take ?i ?rest))"
      using st'(2) stk(3) by (simp only: filter_append map_append) simp
    then show ?thesis by (simp only: taken)
  qed
  moreover have "page_requests (trace st') =
      map (\<lambda>j. GetAssets (j * limit) limit ''sys.createdAt'') [0..<?k + 1]"
    using st'(3) stk(4) stk(2)
    by (simp add: page_requests_def no_page_request_among_checks)
  moreover have "check_requests (trace st') = map (\<lambda>a. GetEntries (sys_id a) 1) (take (Suc n) as)"
  proof -
    have "check_requests (trace st') =
        map (\<lambda>a. GetEntries (sys_id a) 1) (take (?k * limit) as @ take ?i ?rest @ [as ! n])"
      using st'(3) stk(5) by (simp add: check_requests_def checks_only)
    then show ?thesis by (simp only: taken_Suc)
  qed
  moreover have "last (requests (trace st')) = GetEntries (sys_id (as ! n)) 1"
    using st'(3) by simp
  ultimately have "findUnlinkedAssets rt e ?c =
      Some (map (unlinked_entry rt e) (filter (reported_zero ?c) (take n as)), trace st')
    \<and> page_requests (trace st') = map (\<lambda>j. GetAssets (j * limit) limit ''sys.createdAt'') [0..<?k + 1]
    \<and> check_requests (trace st') = map (\<lambda>a. GetEntries (sys_id a) 1) (take (Suc n) as)
    \<and> last (requests (trace st')) = GetEntries (sys_id (as ! n)) 1
    \<and> last (trace st') = LogError (ErrorFetchingOrProcessing m)"
    using st'(4) by simp
  then show ?thesis by (rule exI)
qed

text \<open>\<open>main\<close> after a scan that returned: the list is handed to \<open>fs.writeFile\<close>, and the
  exit code is 0 unless that throws.\<close>

lemma main_after_scan:
  assumes "findUnlinkedAssets rt e c = Some (found, tr)"
  shows "\<exists>out. main rt e c = Some out
    \<and> requests (events out) = requests tr
    \<and> WriteFile (report_filename rt) found \<in> set (events out)
    \<and> exit_code out = (case writeFile rt (report_filename rt) found of None \<Rightarrow> 0 | Some err \<Rightarrow> 1)"
proof -
  have items: "requests (summary_items i n xs) = []" for i n xs
    by (induction xs arbitrary: i) simp_all
  have summary: "requests (summary found) = []"
    using items by (simp add: summary_def requests_append)
  show ?thesis
    using assms summary
    by (cases "writeFile rt (report_filename rt) found") (simp_all add: main_def Let_def requests_append)
qed

lemma ids_of_entries: "map id' (map (unlinked_entry rt e) xs) = map sys_id xs"
  by (simp add: unlinked_entry_fields)

lemma reported_zero_fixed:
  "reported_zero (fixed_repository as total_of) a \<longleftrightarrow> total_of (sys_id a) = JNumber (Finite 0)"
  by (simp add: reported_zero_def fixed_repository_def repository_getEntries)

lemma count_list_distinct: "distinct xs \<Longrightarrow> x \<in> set xs \<Longrightarrow> count_list xs x = 1"
  by (induction xs) auto

lemma distinct_singleton: "distinct xs \<Longrightarrow> set xs = {x} \<Longrightarrow> xs = [x]"
proof (cases xs)
  case Nil
  assume "set xs = {x}"
  with Nil show ?thesis by simp
next
  case (Cons y ys)
  assume d: "distinct xs" and s: "set xs = {x}"
  from s Cons have y: "y = x" by auto
  from s Cons have "set ys \<subseteq> {x}" by auto
  moreover from d Cons y have "x \<notin> set ys" by simp
  ultimately have "ys = []" by (cases ys) auto
  then show ?thesis using Cons y by simp
qed

lemma pages_concat: "concat (map (\<lambda>j. take l (drop (j * l) as)) [0..<k]) = take (k * l) as"
proof (induction k)
  case 0
  show ?case by simp
next
  case (Suc k)
  have "Suc k * l = k * l + l" by simp
  then have "take (Suc k * l) as = take (k * l) as @ take l (drop (k * l) as)"
    by (simp only: take_add)
  then show ?case using Suc.IH by simp
qed

text \<open>The scan of any repository returns: it has checked the first \<open>n\<close> assets of the
  listing, for some \<open>n\<close>, and returns the entries of the unreferenced ones among them; a
  reference query that threw is the one for the asset at position \<open>n\<close>.\<close>

lemma while_repository:
  "\<exists>st' n. while_hasMoreAssets rt e (repository as check page_error) st = Some st'
     \<and> n \<le> length (drop (skip st) as)
     \<and> (\<forall>a \<in> set (take n (drop (skip st) as)). \<exists>t. check (sys_id a) = Inr t)
     \<and> unlinkedAssets st' = unlinkedAssets st
          @ map (unlinked_entry rt e)
              (filter (reported_zero (repository as check page_error)) (take n (drop (skip st) as)))
     \<and> (check_requests (trace st') = check_requests (trace st)
            @ map (\<lambda>a. GetEntries (sys_id a) 1) (take n (drop (skip st) as))
         \<or> n < length (drop (skip st) as)
            \<and> (\<exists>m. check (sys_id (drop (skip st) as ! n)) = Inl (Error m))
            \<and> check_requests (trace st') = check_requests (trace st)
                 @ map (\<lambda>a. GetEntries (sys_id a) 1) (take (Suc n) (drop (skip st) as)))"
proof (induction "length as - skip st" arbitrary: st rule: less_induct)
  case less
  let ?c = "repository as check page_error"
  let ?rest = "drop (skip st) as"
  let ?batch = "take limit ?rest"
  let ?zero = "reported_zero ?c"
  show ?case
  proof (cases "page_error (skip st)")
    case (Some err)
    obtain m where m: "err = Error m" by (cases err)
    have "getAssets ?c (skip st) limit ''sys.createdAt'' = Inl (Error m)"
      using Some m by (simp add: repository_getAssets)
    from while_page_thrown [OF this, of rt e] obtain st' where
      "while_hasMoreAssets rt e ?c st = Some st'"
      "unlinkedAssets st' = unlinkedAssets st"
      "requests (trace st') = requests (trace st) @ [GetAssets (skip st) limit ''sys.createdAt'']"
      by blast
    then have "while_hasMoreAssets rt e ?c st = Some st'
      \<and> 0 \<le> length ?rest
      \<and> (\<forall>a \<in> set (take 0 ?rest). \<exists>t. check (sys_id a) = Inr t)
      \<and> unlinkedAssets st' = unlinkedAssets st @ map (unlinked_entry rt e) (filter ?zero (take 0 ?rest))
      \<and> check_requests (trace st') = check_requests (trace st)
            @ map (\<lambda>a. GetEntries (sys_id a) 1) (take 0 ?rest)"
      by (simp add: check_requests_def)
    then show ?thesis by blast
  next
    case None
    then have page: "getAssets ?c (skip st) limit ''sys.createdAt'' = Inr ?batch"
      by (simp add: repository_getAssets)
    show ?thesis
    proof (cases "\<forall>a \<in> set ?batch. \<exists>t. check (sys_id a) = Inr t")
      case True
      then have answered: "\<forall>a \<in> set ?batch. \<exists>t. getEntries ?c (sys_id a) 1 = Inr t"
        by (simp add: repository_getEntries)
      show ?thesis
      proof (cases "length ?batch < limit")
        case short: True
        then have all: "?batch = ?rest" by simp
        from while_short_page [OF page short answered, of rt e] obtain st' where
          st': "while_hasMoreAssets rt e ?c st = Some st'"
          "unlinkedAssets st' = unlinkedAssets st @ map (unlinked_entry rt e) (filter ?zero ?batch)"
          "requests (trace st') = requests (trace st)
             @ GetAssets (skip st) limit ''sys.createdAt'' # map (\<lambda>a. GetEntries (sys_id a) 1) ?batch"
          by blast
        have "check_requests (trace st') = check_requests (trace st)
            @ map (\<lambda>a. GetEntries (sys_id a) 1) ?batch"
          using st'(3) by (simp add: check_requests_def checks_only)
        then have "while_hasMoreAssets rt e ?c st = Some st'
          \<and> length ?rest \<le> length ?rest
          \<and> (\<forall>a \<in> set (take (length ?rest) ?rest). \<exists>t. check (sys_id a) = Inr t)
          \<and> unlinkedAssets st' = unlinkedAssets st
               @ map (unlinked_entry rt e) (filter ?zero (take (length ?rest) ?rest))
          \<and> check_requests (trace st') = check_requests (trace st)
               @ map (\<lambda>a. GetEntries (sys_id a) 1) (take (length ?rest) ?rest)"
          using st'(1,2) True all by simp
        then show ?thesis by blast
      next
        case False
        then have full: "length ?batch = limit" by simp
        then have "limit \<le> length as - skip st" by simp
        then have room: "skip st + limit \<le> length as" using limit_pos by linarith
        from while_full_page [OF page full answered, of rt e] obtain st1 where
          st1: "while_hasMoreAssets rt e ?c st = while_hasMoreAssets rt e ?c st1"
          "skip st1 = skip st + limit"
          "unlinkedAssets st1 = unlinkedAssets st @ map (unlinked_entry rt e) (filter ?zero ?batch)"
          "requests (trace st1) = requests (trace st)
             @ GetAssets (skip st) limit ''sys.createdAt'' # map (\<lambda>a. GetEntries (sys_id a) 1) ?batch"
          by blast
        have checks1: "check_requests (trace st1) = check_requests (trace st)
            @ map (\<lambda>a. GetEntries (sys_id a) 1) ?batch"
          using st1(4) by (simp add: check_requests_def checks_only)
        let ?rest1 = "drop (skip st1) as"
        have rest1: "?rest1 = drop limit ?rest" using st1(2) by (simp add: add.commute)
        have "length as - skip st1 < length as - skip st"
          using st1(2) room limit_pos by linarith
        from less [OF this] obtain st' n where
          st': "while_hasMoreAssets rt e ?c st1 = Some st'"
          "n \<le> length ?rest1"
          "\<forall>a \<in> set (take n ?rest1). \<exists>t. check (sys_id a) = Inr t"
          "unlinkedAssets st' = unlinkedAssets st1
             @ map (unlinked_entry rt e) (filter ?zero (take n ?rest1))"
          "check_requests (trace st') = check_requests (trace st1)
              @ map (\<lambda>a. GetEntries (sys_id a) 1) (take n ?rest1)
           \<or> n < length ?rest1
              \<and> (\<exists>m. check (sys_id (?rest1 ! n)) = Inl (Error m))
              \<and> check_requests (trace st') = check_requests (trace st1)
                   @ map (\<lambda>a. GetEntries (sys_id a) 1) (take (Suc n) ?rest1)"
          by blast
        have join: "take (limit + j) ?rest = ?batch @ take j ?rest1" for j
          unfolding rest1 by (rule take_add)
        have join_Suc: "take (Suc (limit + n)) ?rest = ?batch @ take (Suc n) ?rest1"
          using join [of "Suc n"] by simp
        have len: "length ?rest = limit + length ?rest1"
          using room st1(2) by simp
        have "limit \<le> length ?rest" using len by linarith
        then have "drop limit ?rest ! n = ?rest ! (limit + n)" by (simp only: nth_drop)
        then have nth: "?rest ! (limit + n) = ?rest1 ! n" by (simp only: rest1)
        have "while_hasMoreAssets rt e ?c st = Some st'" using st1(1) st'(1) by simp
        moreover have "limit + n \<le> length ?rest" using st'(2) len by simp
        moreover have "\<forall>a \<in> set (take (limit + n) ?rest). \<exists>t. check (sys_id a) = Inr t"
          unfolding join using True st'(3) by auto
        moreover have "unlinkedAssets st' = unlinkedAssets st
             @ map (unlinked_entry rt e) (filter ?zero (take (limit + n) ?rest))"
          unfolding join using st'(4) st1(3) by simp
        moreover have "check_requests (trace st') = check_requests (trace st)
              @ map (\<lambda>a. GetEntries (sys_id a) 1) (take (limit + n) ?rest)
           \<or> limit + n < length ?rest
              \<and> (\<exists>m. check (sys_id (?rest ! (limit + n))) = Inl (Error m))
              \<and> check_requests (trace st') = check_requests (trace st)
                   @ map (\<lambda>a. GetEntries (sys_id a) 1) (take (Suc (limit + n)) ?rest)"
          using st'(5)
        proof
          assume "check_requests (trace st') = check_requests (trace st1)
              @ map (\<lambda>a. GetEntries (sys_id a) 1) (take n ?rest1)"
          then have "check_requests (trace st') = check_requests (trace st)
              @ map (\<lambda>a. GetEntries (sys_id a) 1) (take (limit + n) ?rest)"
            unfolding join using checks1 by simp
          then show ?thesis by (rule disjI1)
        next
          assume thrown: "n < length ?rest1
              \<and> (\<exists>m. check (sys_id (?rest1 ! n)) = Inl (Error m))
              \<and> check_requests (trace st') = check_requests (trace st1)
                   @ map (\<lambda>a. GetEntries (sys_id a) 1) (take (Suc n) ?rest1)"
          then have "check_requests (trace st') = check_requests (trace st)
                   @ map (\<lambda>a. GetEntries (sys_id a) 1) (take (Suc (limit + n)) ?rest)"
            unfolding join_Suc using checks1 by simp
          moreover have "limit + n < length ?rest" using thrown len by simp
          moreover have "\<exists>m. check (sys_id (?rest ! (limit + n))) = Inl (Error m)"
            unfolding nth using thrown by simp
          ultimately show ?thesis by blast
        qed
        ultimately show ?thesis by blast
      qed
    next
      case False
      then have "\<exists>a \<in> set ?batch. \<not> (\<exists>t. check (sys_id a) = Inr t)" by simp
      from split_list_first_prop [OF this] obtain pre a post where
        split: "?batch = pre @ a # post"
        and bad: "\<not> (\<exists>t. check (sys_id a) = Inr t)"
        and good: "\<forall>b \<in> set pre. \<exists>t. check (sys_id b) = Inr t"
        by auto
      from bad obtain m where m: "check (sys_id a) = Inl (Error m)"
        by (cases "check (sys_id a)") (auto intro: error.exhaust)
      have page': "getAssets ?c (skip st) limit ''sys.createdAt'' = Inr (pre @ a # post)"
        using page split by simp
      have ok: "\<forall>b \<in> set pre. \<exists>t. getEntries ?c (sys_id b) 1 = Inr t"
        using good by (simp add: repository_getEntries)
      have thrown: "getEntries ?c (sys_id a) 1 = Inl (Error m)"
        using m by (simp add: repository_getEntries)
      from while_check_thrown [OF page' ok thrown, of rt e] obtain st' where
        st': "while_hasMoreAssets rt e ?c st = Some st'"
        "unlinkedAssets st' = unlinkedAssets st @ map (unlinked_entry rt e) (filter ?zero pre)"
        "requests (trace st') = requests (trace st)
           @ GetAssets (skip st) limit ''sys.createdAt'' # map (\<lambda>a. GetEntries (sys_id a) 1) (pre @ [a])"
        by blast
      let ?n = "length pre"
      have n: "?n < length ?batch" using split by simp
      then have n_rest: "?n < length ?rest" by simp
      have "take ?n ?batch = pre" using split by simp
      then have pre: "take ?n ?rest = pre" using n by (simp add: min_def split: if_splits)
      have "?batch ! ?n = a" using split by simp
      then have a: "?rest ! ?n = a" using n by simp
      have pre_a: "take (Suc ?n) ?rest = pre @ [a]"
        using take_Suc_conv_app_nth [OF n_rest] pre a by simp
      have "check_requests (trace st') = check_requests (trace st)
           @ map (\<lambda>a. GetEntries (sys_id a) 1) (take (Suc ?n) ?rest)"
        unfolding pre_a using st'(3) by (simp add: check_requests_def checks_only)
      then have "while_hasMoreAssets rt e ?c st = Some st'
        \<and> ?n \<le> length ?rest
        \<and> (\<forall>a \<in> set (take ?n ?rest). \<exists>t. check (sys_id a) = Inr t)
        \<and> unlinkedAssets st' = unlinkedAssets st
             @ map (unlinked_entry rt e) (filter ?zero (take ?n ?rest))
        \<and> (?n < length ?rest
            \<and> (\<exists>m. check (sys_id (?rest ! ?n)) = Inl (Error m))
            \<and> check_requests (trace st') = check_requests (trace st)
                 @ map (\<lambda>a. GetEntries (sys_id a) 1) (take (Suc ?n) ?rest))"
        using st'(1,2) n_rest good m unfolding pre a by simp
      then show ?thesis by blast
    qed
  qed
qed

lemma scan_repository:
  "\<exists>tr n. findUnlinkedAssets rt e (repository as check page_error) =
       Some (map (unlinked_entry rt e) (filter (reported_zero (repository as check page_error)) (take n as)), tr)
     \<and> n \<le> length as
     \<and> (\<forall>a \<in> set (take n as). \<exists>t. check (sys_id a) = Inr t)
     \<and> (check_requests tr = map (\<lambda>a. GetEntries (sys_id a) 1) (take n as)
         \<or> n < length as \<and> (\<exists>m. check (sys_id (as ! n)) = Inl (Error m))
            \<and> check_requests tr = map (\<lambda>a. GetEntries (sys_id a) 1) (take (Suc n) as))"
proof -
  let ?st = "\<lparr>unlinkedAssets = [], skip = 0, trace = [Log StartingScan]\<rparr>"
  from while_repository [of rt e as check page_error ?st] obtain st' n where
    "while_hasMoreAssets rt e (repository as check page_error) ?st = Some st'"
    "n \<le> length as"
    "\<forall>a \<in> set (take n as). \<exists>t. check (sys_id a) = Inr t"
    "unlinkedAssets st' =
       map (unlinked_entry rt e) (filter (reported_zero (repository as check page_error)) (take n as))"
    "check_requests (trace st') = map (\<lambda>a. GetEntries (sys_id a) 1) (take n as)
     \<or> n < length as \<and> (\<exists>m. check (sys_id (as ! n)) = Inl (Error m))
        \<and> check_requests (trace st') = map (\<lambda>a. GetEntries (sys_id a) 1) (take (Suc n) as)"
    by (auto simp: check_requests_def)
  then show ?thesis using findUnlinkedAssets_while by fastforce
qed

lemma checked_iff:
  "GetEntries i 1 \<in> set (requests tr) \<longleftrightarrow> GetEntries i 1 \<in> set (check_requests tr)"
  by (simp add: check_requests_def)

text \<open>C1: a repository is a list of assets with distinct identifiers; the scan of it
  returns whatever requests fail, and the identifier of an asset is in the returned list
  if and only if the reference query for that asset was made and reported a total of
  zero. The list holds identifiers of the repository only, none of them twice. When
  every request is answered, the query is made for every asset: the identifier of an
  asset is in the list, exactly once, if and only if the total reported for it is
  zero.\<close>

theorem unlinked_ids_exactly_once:
  assumes "distinct (map sys_id as)"
  shows "(\<exists>found tr. findUnlinkedAssets rt e (repository as check page_error) = Some (found, tr)
      \<and> (\<forall>a \<in> set as. sys_id a \<in> set (map id' found) \<longleftrightarrow>
            GetEntries (sys_id a) 1 \<in> set (requests tr) \<and> check (sys_id a) = Inr (JNumber (Finite 0)))
      \<and> set (map id' found) \<subseteq> set (map sys_id as)
      \<and> distinct (map id' found))
    \<and> (\<exists>found tr. findUnlinkedAssets rt e (fixed_repository as total_of) = Some (found, tr)
      \<and> (\<forall>a \<in> set as. sys_id a \<in> set (map id' found) \<longleftrightarrow> total_of (sys_id a) = JNumber (Finite 0))
      \<and> (\<forall>a \<in> set as. reported_zero (fixed_repository as total_of) a
            \<longleftrightarrow> total_of (sys_id a) = JNumber (Finite 0))
      \<and> set (map id' found) \<subseteq> set (map sys_id as)
      \<and> distinct (map id' found)
      \<and> (\<forall>a \<in> set as. total_of (sys_id a) = JNumber (Finite 0) \<longrightarrow>
            count_list (map id' found) (sys_id a) = 1))"
proof
  let ?c = "repository as check page_error"
  from scan_repository [of rt e as check page_error] obtain tr n where
    scan: "findUnlinkedAssets rt e ?c =
       Some (map (unlinked_entry rt e) (filter (reported_zero ?c) (take n as)), tr)"
    and n: "n \<le> length as"
    and checks: "check_requests tr = map (\<lambda>a. GetEntries (sys_id a) 1) (take n as)
         \<or> n < length as \<and> (\<exists>m. check (sys_id (as ! n)) = Inl (Error m))
            \<and> check_requests tr = map (\<lambda>a. GetEntries (sys_id a) 1) (take (Suc n) as)"
    by blast
  let ?found = "map (unlinked_entry rt e) (filter (reported_zero ?c) (take n as))"
  have ids: "map id' ?found = map sys_id (filter (reported_zero ?c) (take n as))"
    by (rule ids_of_entries)
  have inj: "inj_on sys_id (set as)" using assms by (simp add: distinct_map)
  have zero: "reported_zero ?c a \<longleftrightarrow> check (sys_id a) = Inr (JNumber (Finite 0))" for a
    by (simp add: reported_zero_def repository_getEntries)
  have among: "sys_id a \<in> sys_id ` set xs \<longleftrightarrow> a \<in> set xs"
    if "a \<in> set as" "set xs \<subseteq> set as" for a xs
    using inj that by (rule inj_on_image_mem_iff)
  have left: "sys_id a \<in> set (map id' ?found) \<longleftrightarrow>
      a \<in> set (take n as) \<and> check (sys_id a) = Inr (JNumber (Finite 0))" if a: "a \<in> set as" for a
  proof
    assume "sys_id a \<in> set (map id' ?found)"
    then obtain b where b: "b \<in> set (take n as)" "reported_zero ?c b" "sys_id b = sys_id a"
      unfolding ids by auto
    from b(1) have "b \<in> set as" by (rule in_set_takeD)
    with b(3) a inj have "b = a" by (simp add: inj_on_def)
    with b show "a \<in> set (take n as) \<and> check (sys_id a) = Inr (JNumber (Finite 0))"
      by (simp add: zero)
  next
    assume "a \<in> set (take n as) \<and> check (sys_id a) = Inr (JNumber (Finite 0))"
    then show "sys_id a \<in> set (map id' ?found)"
      unfolding ids by (auto simp: zero)
  qed
  have right: "GetEntries (sys_id a) 1 \<in> set (requests tr) \<and> check (sys_id a) = Inr (JNumber (Finite 0))
      \<longleftrightarrow> a \<in> set (take n as) \<and> check (sys_id a) = Inr (JNumber (Finite 0))"
    if a: "a \<in> set as" for a
    using checks
  proof
    assume "check_requests tr = map (\<lambda>a. GetEntries (sys_id a) 1) (take n as)"
    then have "GetEntries (sys_id a) 1 \<in> set (requests tr) \<longleftrightarrow> sys_id a \<in> sys_id ` set (take n as)"
      unfolding checked_iff by auto
    also have "\<dots> \<longleftrightarrow> a \<in> set (take n as)"
      using a by (rule among) (rule set_take_subset)
    finally show ?thesis by simp
  next
    assume thrown: "n < length as \<and> (\<exists>m. check (sys_id (as ! n)) = Inl (Error m))
            \<and> check_requests tr = map (\<lambda>a. GetEntries (sys_id a) 1) (take (Suc n) as)"
    then have "GetEntries (sys_id a) 1 \<in> set (requests tr) \<longleftrightarrow> sys_id a \<in> sys_id ` set (take (Suc n) as)"
      unfolding checked_iff by auto
    also have "\<dots> \<longleftrightarrow> a \<in> set (take (Suc n) as)"
      using a by (rule among) (rule set_take_subset)
    also have "\<dots> \<longleftrightarrow> a \<in> set (take n as) \<or> a = as ! n"
      using thrown by (auto simp: take_Suc_conv_app_nth)
    finally show ?thesis using thrown by auto
  qed
  have inside: "set (map id' ?found) \<subseteq> set (map sys_id as)"
    unfolding ids by (auto dest: in_set_takeD)
  have "distinct (map sys_id (take n as))"
    using assms by (simp add: distinct_take take_map [symmetric])
  then have once: "distinct (map id' ?found)"
    unfolding ids by (rule distinct_map_filter)
  show "\<exists>found tr. findUnlinkedAssets rt e ?c = Some (found, tr)
      \<and> (\<forall>a \<in> set as. sys_id a \<in> set (map id' found) \<longleftrightarrow>
            GetEntries (sys_id a) 1 \<in> set (requests tr) \<and> check (sys_id a) = Inr (JNumber (Finite 0)))
      \<and> set (map id' found) \<subseteq> set (map sys_id as)
      \<and> distinct (map id' found)"
    using scan left right inside once by blast
next
  let ?c = "fixed_repository as total_of"
  let ?found = "map (unlinked_entry rt e) (filter (reported_zero ?c) as)"
  from scan_fixed_repository [of rt e as total_of] obtain tr where
    scan: "findUnlinkedAssets rt e ?c = Some (?found, tr)" by blast
  have ids: "map id' ?found = map sys_id (filter (reported_zero ?c) as)"
    by (rule ids_of_entries)
  have member: "sys_id a \<in> set (map id' ?found) \<longleftrightarrow> total_of (sys_id a) = JNumber (Finite 0)"
    if "a \<in> set as" for a
    using that unfolding ids by (auto simp: reported_zero_fixed)
  have inside: "set (map id' ?found) \<subseteq> set (map sys_id as)"
    unfolding ids by auto
  have once: "distinct (map id' ?found)"
    unfolding ids using assms by (rule distinct_map_filter)
  have count: "count_list (map id' ?found) (sys_id a) = 1"
    if "a \<in> set as" "total_of (sys_id a) = JNumber (Finite 0)" for a
    using once member [OF that(1)] that(2) by (simp add: count_list_distinct)
  show "\<exists>found tr. findUnlinkedAssets rt e ?c = Some (found, tr)
      \<and> (\<forall>a \<in> set as. sys_id a \<in> set (map id' found) \<longleftrightarrow> total_of (sys_id a) = JNumber (Finite 0))
      \<and> (\<forall>a \<in> set as. reported_zero ?c a \<longleftrightarrow> total_of (sys_id a) = JNumber (Finite 0))
      \<and> set (map id' found) \<subseteq> set (map sys_id as)
      \<and> distinct (map id' found)
      \<and> (\<forall>a \<in> set as. total_of (sys_id a) = JNumber (Finite 0) \<longrightarrow>
            count_list (map id' found) (sys_id a) = 1)"
    using scan member inside once count reported_zero_fixed by blast
qed

theorem unlinked_ids_exactly_once_witness:
  "distinct (map sys_id [asset1, asset2, asset3])
   \<and> map_option (map id' \<circ> fst)
        (findUnlinkedAssets example_runtime example_env (fixed_repository [asset1, asset2, asset3] example_total))
      = Some [''a2'']"
proof -
  have d: "distinct (map sys_id [asset1, asset2, asset3])"
    by (simp add: asset1_def asset2_def asset3_def)
  from unlinked_ids_exactly_once [OF d, of example_runtime example_env _ _ example_total]
  obtain found tr where
    scan: "findUnlinkedAssets example_runtime example_env (fixed_repository [asset1, asset2, asset3] example_total)
      = Some (found, tr)"
    and member: "\<forall>a \<in> set [asset1, asset2, asset3].
        sys_id a \<in> set (map id' found) \<longleftrightarrow> example_total (sys_id a) = JNumber (Finite 0)"
    and inside: "set (map id' found) \<subseteq> set (map sys_id [asset1, asset2, asset3])"
    and once: "distinct (map id' found)"
    by blast
  from member have "set (map id' found) \<inter> {''a1'', ''a2'', ''a3''} = {''a2''}"
    by (auto simp: asset1_def asset2_def asset3_def example_total_def)
  moreover from inside have "set (map id' found) \<subseteq> {''a1'', ''a2'', ''a3''}"
    by (simp add: asset1_def asset2_def asset3_def)
  ultimately have "set (map id' found) = {''a2''}" by blast
  with once have "map id' found = [''a2'']"
    by (rule distinct_singleton)
  with scan d show ?thesis by simp
qed

text \<open>C10: the returned list follows the listing. For any repository it is the entries
  of the unreferenced assets among the first \<open>n\<close> of the listing, in the order of the
  listing, and \<open>main\<close> hands this very list to \<open>fs.writeFile\<close>; when every request is
  answered it is the whole listing with the referenced assets left out, and every page is
  requested in the order \<open>sys.createdAt\<close>.\<close>

theorem report_keeps_listing_order:
  "(\<exists>found tr n out. findUnlinkedAssets rt e (repository as check page_error) = Some (found, tr)
      \<and> n \<le> length as
      \<and> found = map (unlinked_entry rt e)
          (filter (\<lambda>a. check (sys_id a) = Inr (JNumber (Finite 0))) (take n as))
      \<and> map id' found = map sys_id (filter (\<lambda>a. check (sys_id a) = Inr (JNumber (Finite 0))) (take n as))
      \<and> main rt e (repository as check page_error) = Some out
      \<and> WriteFile (report_filename rt) found \<in> set (events out))
   \<and> (\<exists>found tr. findUnlinkedAssets rt e (fixed_repository as total_of) = Some (found, tr)
      \<and> found = map (unlinked_entry rt e) (filter (\<lambda>a. total_of (sys_id a) = JNumber (Finite 0)) as)
      \<and> map id' found = map sys_id (filter (\<lambda>a. total_of (sys_id a) = JNumber (Finite 0)) as)
      \<and> page_requests tr = map (\<lambda>j. GetAssets (j * limit) limit ''sys.createdAt'') [0..<length as div limit + 1])"
proof
  let ?c = "repository as check page_error"
  have zero: "reported_zero ?c = (\<lambda>a. check (sys_id a) = Inr (JNumber (Finite 0)))"
    by (rule ext) (simp add: reported_zero_def repository_getEntries)
  from scan_repository [of rt e as check page_error] obtain tr n where
    scan: "findUnlinkedAssets rt e ?c =
       Some (map (unlinked_entry rt e) (filter (reported_zero ?c) (take n as)), tr)"
    and n: "n \<le> length as"
    by blast
  from main_after_scan [OF scan] obtain out where
    "main rt e ?c = Some out"
    "WriteFile (report_filename rt) (map (unlinked_entry rt e) (filter (reported_zero ?c) (take n as)))
       \<in> set (events out)"
    by blast
  with scan n show "\<exists>found tr n out. findUnlinkedAssets rt e ?c = Some (found, tr)
      \<and> n \<le> length as
      \<and> found = map (unlinked_entry rt e)
          (filter (\<lambda>a. check (sys_id a) = Inr (JNumber (Finite 0))) (take n as))
      \<and> map id' found = map sys_id (filter (\<lambda>a. check (sys_id a) = Inr (JNumber (Finite 0))) (take n as))
      \<and> main rt e ?c = Some out
      \<and> WriteFile (report_filename rt) found \<in> set (events out)"
    unfolding zero using ids_of_entries by blast
next
  let ?c = "fixed_repository as total_of"
  have zero: "reported_zero ?c = (\<lambda>a. total_of (sys_id a) = JNumber (Finite 0))"
    by (rule ext) (rule reported_zero_fixed)
  from scan_fixed_repository [of rt e as total_of] obtain tr where
    "findUnlinkedAssets rt e ?c = Some (map (unlinked_entry rt e) (filter (reported_zero ?c) as), tr)"
    "page_requests tr = map (\<lambda>j. GetAssets (j * limit) limit ''sys.createdAt'') [0..<length as div limit + 1]"
    by blast
  then show "\<exists>found tr. findUnlinkedAssets rt e ?c = Some (found, tr)
      \<and> found = map (unlinked_entry rt e) (filter (\<lambda>a. total_of (sys_id a) = JNumber (Finite 0)) as)
      \<and> map id' found = map sys_id (filter (\<lambda>a. total_of (sys_id a) = JNumber (Finite 0)) as)
      \<and> page_requests tr = map (\<lambda>j. GetAssets (j * limit) limit ''sys.createdAt'') [0..<length as div limit + 1]"
    unfolding zero using ids_of_entries by blast
qed

theorem report_keeps_listing_order_witness:
  "map_option (map id' \<circ> fst)
     (findUnlinkedAssets example_runtime example_env
        (fixed_repository [asset3, asset2, asset1, asset2] (\<lambda>assetId. JNumber (Finite (if assetId = ''a1'' then 1 else 0)))))
   = Some [''a3'', ''a2'', ''a2'']"
proof -
  from report_keeps_listing_order [where rt = example_runtime and e = example_env
      and as = "[asset3, asset2, asset1, asset2]"
      and total_of = "\<lambda>assetId. JNumber (Finite (if assetId = ''a1'' then 1 else 0))",
      THEN conjunct2]
  show ?thesis
    by (auto simp: asset1_def asset2_def asset3_def)
qed

text \<open>C2: over a repository of \<open>N\<close> assets that answers every request, the scan returns
  after requesting the pages at the offsets 0, 100, 200, ... up to \<open>100 * (N div 100)\<close>,
  each with page size 100: every page before the last is full, the last one is shorter
  than 100 (empty when \<open>N\<close> is a multiple of 100), and the pages answered, one after the
  other, are the list of the assets.\<close>

theorem pagination_covers_every_asset:
  "\<exists>found tr. findUnlinkedAssets rt e (fixed_repository as total_of) = Some (found, tr)
    \<and> page_requests tr = map (\<lambda>j. GetAssets (j * 100) 100 ''sys.createdAt'') [0..<length as div 100 + 1]
    \<and> concat (map (answered_items (fixed_repository as total_of)) (page_requests tr)) = as
    \<and> (\<forall>r \<in> set (butlast (page_requests tr)). length (answered_items (fixed_repository as total_of) r) = 100)
    \<and> length (answered_items (fixed_repository as total_of) (last (page_requests tr))) < 100"
proof -
  let ?c = "fixed_repository as total_of"
  let ?k = "length as div 100"
  let ?page = "\<lambda>j. GetAssets (j * 100) 100 ''sys.createdAt''"
  from scan_fixed_repository [of rt e as total_of] obtain tr where
    scan: "findUnlinkedAssets rt e ?c = Some (map (unlinked_entry rt e) (filter (reported_zero ?c) as), tr)"
    and pages: "page_requests tr = map ?page [0..<?k + 1]"
    unfolding limit_def by blast
  have answer: "answered_items ?c (?page j) = take 100 (drop (j * 100) as)" for j
    by (simp add: fixed_repository_def repository_getAssets)
  have "concat (map (answered_items ?c) (page_requests tr)) = take ((?k + 1) * 100) as"
    unfolding pages using pages_concat [of 100 as "?k + 1"]
    by (simp add: comp_def fixed_repository_def repository_getAssets)
  moreover have "length as \<le> (?k + 1) * 100"
    using div_mult_mod_eq [of "length as" 100] by (simp del: div_mult_mod_eq)
  ultimately have cover: "concat (map (answered_items ?c) (page_requests tr)) = as" by simp
  have "butlast (page_requests tr) = map ?page [0..<?k]"
    unfolding pages by (simp add: map_butlast [symmetric])
  moreover have "length (answered_items ?c (?page j)) = 100" if "j < ?k" for j
  proof -
    from that have "(j + 1) * 100 \<le> ?k * 100" by simp
    also have "\<dots> \<le> length as" by simp
    finally show ?thesis unfolding answer by simp
  qed
  ultimately have full: "\<forall>r \<in> set (butlast (page_requests tr)). length (answered_items ?c r) = 100"
    by auto
  have "last (page_requests tr) = ?page ?k" unfolding pages by simp
  moreover have "length as - ?k * 100 = length as mod 100"
    by (simp add: minus_div_mult_eq_mod)
  ultimately have short: "length (answered_items ?c (last (page_requests tr))) < 100"
    by (simp add: fixed_repository_def repository_getAssets)
  show ?thesis using scan pages cover full short by blast
qed

theorem pagination_covers_every_asset_witness:
  "map_option (page_requests \<circ> snd)
     (findUnlinkedAssets example_runtime example_env (fixed_repository (replicate 200 asset3) example_total))
   = Some [GetAssets 0 100 ''sys.createdAt'', GetAssets 100 100 ''sys.createdAt'',
           GetAssets 200 100 ''sys.createdAt'']"
proof -
  have "[0..<length (replicate 200 asset3) div 100 + 1] = [0, 1, 2]"
    by (simp add: upt_rec)
  with pagination_covers_every_asset [of example_runtime example_env "replicate 200 asset3" example_total]
  show ?thesis by auto
qed

text \<open>C3, as the code has it: when a listing request or a reference query throws, every
  request before it having been answered, the scan returns; the failing request is its
  last request and the error message its last line. The list returned holds the entries
  of the unreferenced assets among those checked before the error, whether they were
  pushed in earlier batches or earlier in the failing batch. \<open>main\<close> then makes no
  further request, hands that list to \<open>fs.writeFile\<close>, and ends with code 0 unless the
  write throws.\<close>

theorem error_ends_scan_with_partial_report:
  assumes c: "c = repository as check page_error"
  shows
    "((\<forall>j<k. page_error (j * limit) = None) \<and> page_error (k * limit) = Some (Error m)
        \<and> k * limit \<le> length as
        \<and> (\<forall>a \<in> set (take (k * limit) as). \<exists>t. check (sys_id a) = Inr t)
      \<longrightarrow> (\<exists>found tr out. findUnlinkedAssets rt e c = Some (found, tr)
            \<and> found = map (unlinked_entry rt e) (filter (reported_zero c) (take (k * limit) as))
            \<and> last (requests tr) = GetAssets (k * limit) limit ''sys.createdAt''
            \<and> last tr = LogError (ErrorFetchingOrProcessing m)
            \<and> main rt e c = Some out
            \<and> requests (events out) = requests tr
            \<and> WriteFile (report_filename rt) found \<in> set (events out)
            \<and> exit_code out = (case writeFile rt (report_filename rt) found of None \<Rightarrow> 0 | Some err \<Rightarrow> 1)))
     \<and> (n < length as \<and> (\<forall>j \<le> n div limit. page_error (j * limit) = None)
        \<and> (\<forall>a \<in> set (take n as). \<exists>t. check (sys_id a) = Inr t)
        \<and> check (sys_id (as ! n)) = Inl (Error m)
      \<longrightarrow> (\<exists>found tr out. findUnlinkedAssets rt e c = Some (found, tr)
            \<and> found = map (unlinked_entry rt e) (filter (reported_zero c) (take n as))
            \<and> last (requests tr) = GetEntries (sys_id (as ! n)) 1
            \<and> last tr = LogError (ErrorFetchingOrProcessing m)
            \<and> main rt e c = Some out
            \<and> requests (events out) = requests tr
            \<and> WriteFile (report_filename rt) found \<in> set (events out)
            \<and> exit_code out = (case writeFile rt (report_filename rt) found of None \<Rightarrow> 0 | Some err \<Rightarrow> 1)))"
proof (intro conjI impI)
  assume h: "(\<forall>j<k. page_error (j * limit) = None) \<and> page_error (k * limit) = Some (Error m)
        \<and> k * limit \<le> length as
        \<and> (\<forall>a \<in> set (take (k * limit) as). \<exists>t. check (sys_id a) = Inr t)"
  then have h1: "\<forall>j<k. page_error (j * limit) = None"
    and h2: "page_error (k * limit) = Some (Error m)"
    and h3: "k * limit \<le> length as"
    and h4: "\<forall>a \<in> set (take (k * limit) as). \<exists>t. check (sys_id a) = Inr t"
    by blast+
  from scan_page_thrown [OF h1 h2 h3 h4, of rt e] obtain tr where
    scan: "findUnlinkedAssets rt e c =
        Some (map (unlinked_entry rt e) (filter (reported_zero c) (take (k * limit) as)), tr)"
    and stop: "last (requests tr) = GetAssets (k * limit) limit ''sys.createdAt''"
      "last tr = LogError (ErrorFetchingOrProcessing m)"
    unfolding c by blast
  from main_after_scan [OF scan] scan stop
  show "\<exists>found tr out. findUnlinkedAssets rt e c = Some (found, tr)
            \<and> found = map (unlinked_entry rt e) (filter (reported_zero c) (take (k * limit) as))
            \<and> last (requests tr) = GetAssets (k * limit) limit ''sys.createdAt''
            \<and> last tr = LogError (ErrorFetchingOrProcessing m)
            \<and> main rt e c = Some out
            \<and> requests (events out) = requests tr
            \<and> WriteFile (report_filename rt) found \<in> set (events out)
            \<and> exit_code out = (case writeFile rt (report_filename rt) found of None \<Rightarrow> 0 | Some err \<Rightarrow> 1)"
    by blast
next
  assume h: "n < length as \<and> (\<forall>j \<le> n div limit. page_error (j * limit) = None)
        \<and> (\<forall>a \<in> set (take n as). \<exists>t. check (sys_id a) = Inr t)
        \<and> check (sys_id (as ! n)) = Inl (Error m)"
  then have h1: "n < length as"
    and h2: "\<forall>j \<le> n div limit. page_error (j * limit) = None"
    and h3: "\<forall>a \<in> set (take n as). \<exists>t. check (sys_id a) = Inr t"
    and h4: "check (sys_id (as ! n)) = Inl (Error m)"
    by blast+
  from scan_check_thrown [OF h1 h2 h3 h4, of rt e] obtain tr where
    scan: "findUnlinkedAssets rt e c =
        Some (map (unlinked_entry rt e) (filter (reported_zero c) (take n as)), tr)"
    and stop: "last (requests tr) = GetEntries (sys_id (as ! n)) 1"
      "last tr = LogError (ErrorFetchingOrProcessing m)"
    unfolding c by blast
  from main_after_scan [OF scan] scan stop
  show "\<exists>found tr out. findUnlinkedAssets rt e c = Some (found, tr)
            \<and> found = map (unlinked_entry rt e) (filter (reported_zero c) (take n as))
            \<and> last (requests tr) = GetEntries (sys_id (as ! n)) 1
            \<and> last tr = LogError (ErrorFetchingOrProcessing m)
            \<and> main rt e c = Some out
            \<and> requests (events out) = requests tr
            \<and> WriteFile (report_filename rt) found \<in> set (events out)
            \<and> exit_code out = (case writeFile rt (report_filename rt) found of None \<Rightarrow> 0 | Some err \<Rightarrow> 1)"
    by blast
qed

theorem error_ends_scan_with_partial_report_witness:
  "map_option fst (findUnlinkedAssets example_runtime example_env failing_check_repository)
     = Some [unlinked_entry example_runtime example_env asset2]
   \<and> map_option exit_code (main example_runtime example_env failing_check_repository) = Some 0
   \<and> map_option fst (findUnlinkedAssets example_runtime example_env failing_page_repository) = Some []
   \<and> map_option exit_code (main example_runtime example_env failing_page_repository) = Some 0"
proof -
  let ?check = "\<lambda>assetId. if assetId = ''a1'' then Inl (Error ''socket hang up'') else Inr (example_total assetId)"
  have none: "writeFile example_runtime f d = None" for f d
    by (simp add: example_runtime_def)
  have b1: "(1::nat) < length [asset2, asset1]" by simp
  have b2: "\<forall>j \<le> 1 div limit. (\<lambda>skip::nat. None :: error option) (j * limit) = None" by simp
  have b3: "\<forall>a \<in> set (take 1 [asset2, asset1]). \<exists>t. ?check (sys_id a) = Inr t"
    by (simp add: asset2_def)
  have b4: "?check (sys_id ([asset2, asset1] ! 1)) = Inl (Error ''socket hang up'')"
    by (simp add: asset1_def)
  have zero: "reported_zero failing_check_repository asset2"
    by (simp add: reported_zero_def failing_check_repository_def repository_getEntries
        asset2_def example_total_def)
  from error_ends_scan_with_partial_report [OF failing_check_repository_def,
      where k = 0 and m = "''socket hang up''" and n = 1 and rt = example_runtime and e = example_env] b1 b2 b3 b4
  obtain found tr out where
    "findUnlinkedAssets example_runtime example_env failing_check_repository = Some (found, tr)"
    "found = map (unlinked_entry example_runtime example_env)
        (filter (reported_zero failing_check_repository) (take 1 [asset2, asset1]))"
    "main example_runtime example_env failing_check_repository = Some out"
    "exit_code out = (case writeFile example_runtime (report_filename example_runtime) found of
        None \<Rightarrow> 0 | Some err \<Rightarrow> 1)"
    by blast
  then have check: "map_option fst (findUnlinkedAssets example_runtime example_env failing_check_repository)
       = Some [unlinked_entry example_runtime example_env asset2]
     \<and> map_option exit_code (main example_runtime example_env failing_check_repository) = Some 0"
    using zero none by simp
  let ?fail = "\<lambda>skip::nat. if skip = 0 then Some (Error ''getaddrinfo ENOTFOUND'') else None"
  have a1: "\<forall>j<0. ?fail (j * limit) = None" by simp
  have a2: "?fail (0 * limit) = Some (Error ''getaddrinfo ENOTFOUND'')" by simp
  have a3: "0 * limit \<le> length [asset1, asset2, asset3]" by simp
  have a4: "\<forall>a \<in> set (take (0 * limit) [asset1, asset2, asset3]).
      \<exists>t. (Inr (example_total (sys_id a)) :: error + js) = Inr t" by simp
  from error_ends_scan_with_partial_report [OF failing_page_repository_def,
      where k = 0 and m = "''getaddrinfo ENOTFOUND''" and n = 0 and rt = example_runtime and e = example_env] a1 a2 a3 a4
  obtain found tr out where
    "findUnlinkedAssets example_runtime example_env failing_page_repository = Some (found, tr)"
    "found = map (unlinked_entry example_runtime example_env)
        (filter (reported_zero failing_page_repository) (take (0 * limit) [asset1, asset2, asset3]))"
    "main example_runtime example_env failing_page_repository = Some out"
    "exit_code out = (case writeFile example_runtime (report_filename example_runtime) found of
        None \<Rightarrow> 0 | Some err \<Rightarrow> 1)"
    by blast
  then have page: "map_option fst (findUnlinkedAssets example_runtime example_env failing_page_repository) = Some []
     \<and> map_option exit_code (main example_runtime example_env failing_page_repository) = Some 0"
    using none by simp
  show ?thesis using check page by simp
qed

text \<open>C3 as stated fails: the first batch is the one that fails (the reference query for
  its second asset throws), nothing has been accumulated before it, and yet the scan
  returns the entry that was pushed for its first asset.\<close>

theorem scan_result_includes_failing_batch:
  "getAssets failing_check_repository 0 limit ''sys.createdAt'' = Inr [asset2, asset1]
   \<and> getEntries failing_check_repository (sys_id asset2) 1 = Inr (JNumber (Finite 0))
   \<and> getEntries failing_check_repository (sys_id asset1) 1 = Inl (Error ''socket hang up'')
   \<and> map_option fst (findUnlinkedAssets example_runtime example_env failing_check_repository)
       = Some [unlinked_entry example_runtime example_env asset2]
   \<and> map_option fst (findUnlinkedAssets example_runtime example_env failing_check_repository) \<noteq> Some []"
proof -
  let ?check = "\<lambda>assetId. if assetId = ''a1'' then Inl (Error ''socket hang up'') else Inr (example_total assetId)"
  have b1: "(1::nat) < length [asset2, asset1]" by simp
  have b2: "\<forall>j \<le> 1 div limit. (\<lambda>skip::nat. None :: error option) (j * limit) = None" by simp
  have b3: "\<forall>a \<in> set (take 1 [asset2, asset1]). \<exists>t. ?check (sys_id a) = Inr t"
    by (simp add: asset2_def)
  have b4: "?check (sys_id ([asset2, asset1] ! 1)) = Inl (Error ''socket hang up'')"
    by (simp add: asset1_def)
  have zero: "reported_zero failing_check_repository asset2"
    by (simp add: reported_zero_def failing_check_repository_def repository_getEntries
        asset2_def example_total_def)
  from scan_check_thrown [OF b1 b2 b3 b4, of example_runtime example_env]
  obtain tr where
    "findUnlinkedAssets example_runtime example_env failing_check_repository =
      Some (map (unlinked_entry example_runtime example_env)
        (filter (reported_zero failing_check_repository) (take 1 [asset2, asset1])), tr)"
    unfolding failing_check_repository_def [symmetric] by blast
  then have found: "map_option fst (findUnlinkedAssets example_runtime example_env failing_check_repository)
       = Some [unlinked_entry example_runtime example_env asset2]"
    using zero by simp
  have "map_option fst (findUnlinkedAssets example_runtime example_env failing_check_repository) \<noteq> Some []"
    unfolding found by simp
  moreover note found
  moreover have "getAssets failing_check_repository 0 limit ''sys.createdAt'' = Inr [asset2, asset1]"
    by (simp add: failing_check_repository_def repository_getAssets limit_def)
  moreover have "getEntries failing_check_repository (sys_id asset2) 1 = Inr (JNumber (Finite 0))"
    using zero by (simp add: reported_zero_def)
  moreover have "getEntries failing_check_repository (sys_id asset1) 1 = Inl (Error ''socket hang up'')"
    by (simp add: failing_check_repository_def repository_getEntries asset1_def)
  ultimately show ?thesis by blast
qed

end
